theory Spec2Isabelle
  imports Complex_Main "HOL-Library.Multiset" "HOL-Library.List_Lexorder" "HOL-Library.AList"
begin

section \<open>Data returned by the bibliographic API\<close>

text \<open>
  The program reads JSON objects with \<^verbatim>\<open>d.get(k)\<close>, \<^verbatim>\<open>d.get(k, default)\<close> and
  \<^verbatim>\<open>d[k]\<close>, which tell a missing key from a key holding \<^verbatim>\<open>null\<close> in different
  ways. A member of an object is therefore one of three things.
\<close>

datatype 'a member = Absent | Null | Val 'a

text \<open>\<^verbatim>\<open>d.get(k)\<close>: \<^verbatim>\<open>None\<close> for a missing key and for \<^verbatim>\<open>null\<close>.\<close>

fun get :: "'a member \<Rightarrow> 'a option" where
  "get Absent = None"
| "get Null = None"
| "get (Val v) = Some v"

text \<open>
  The related-publication object. The fields are the four the program requests
  (\<^verbatim>\<open>paperId,title,year,citationCount\<close>); an object none of whose keys is present is
  the empty dict, which Python treats as false.
\<close>

record paper =
  paperId :: "string member"
  title :: "string member"
  year :: "int member"
  citationCount :: "int member"

definition empty_dict :: paper where
  "empty_dict = \<lparr>paperId = Absent, title = Absent, year = Absent, citationCount = Absent\<rparr>"

definition dict_truthy :: "paper \<Rightarrow> bool" where
  "dict_truthy p \<longleftrightarrow> p \<noteq> empty_dict"

text \<open>
  One relation entry: the influence flag of the relation edge and the nested publication,
  stored under \<^verbatim>\<open>citingPaper\<close> or \<^verbatim>\<open>citedPaper\<close>.
\<close>

record entry =
  isInfluential :: "bool member"
  citingPaper :: "paper member"
  citedPaper :: "paper member"

text \<open>\<^verbatim>\<open>x.get(paper_key)\<close> for the two keys the program uses.\<close>

definition entry_get :: "entry \<Rightarrow> string \<Rightarrow> paper option" where
  "entry_get x paper_key =
     (if paper_key = ''citingPaper'' then get (citingPaper x)
      else if paper_key = ''citedPaper'' then get (citedPaper x)
      else None)"

text \<open>\<^verbatim>\<open>x.get(paper_key) or {}\<close>: \<^verbatim>\<open>None\<close> and the empty dict both give the empty dict.\<close>

definition or_empty :: "paper option \<Rightarrow> paper" where
  "or_empty v = (case v of None \<Rightarrow> empty_dict | Some p \<Rightarrow> p)"

text \<open>\<^verbatim>\<open>v or 0\<close> on an optional integer.\<close>

definition or_zero :: "int option \<Rightarrow> int" where
  "or_zero v = (case v of None \<Rightarrow> 0 | Some n \<Rightarrow> n)"

text \<open>Python truthiness of an optional boolean and of an optional string.\<close>

definition truthy_bool :: "bool option \<Rightarrow> bool" where
  "truthy_bool v = (case v of None \<Rightarrow> False | Some b \<Rightarrow> b)"

definition truthy_str :: "string option \<Rightarrow> bool" where
  "truthy_str v = (case v of None \<Rightarrow> False | Some s \<Rightarrow> s \<noteq> [])"

section \<open>The network and the clock\<close>

text \<open>
  What \<^verbatim>\<open>requests.get\<close> gives back: a transport-level fault (\<^verbatim>\<open>RequestException\<close>) or
  a response with a status code and a JSON body. The body of a response is taken to be
  JSON of the shape the endpoint documents, with any member missing or \<^verbatim>\<open>null\<close>.
\<close>

datatype 'b response = RequestException | Response int 'b

text \<open>
  The effects of the program on the outside world: the number of HTTP requests sent so
  far and the log of the calls to \<^verbatim>\<open>time.sleep\<close>, in seconds.
\<close>

record world =
  calls :: nat
  sleeps :: "rat list"

definition sleep :: "rat \<Rightarrow> world \<Rightarrow> world" where
  "sleep s w = w\<lparr>sleeps := sleeps w @ [s]\<rparr>"

definition sent :: "world \<Rightarrow> world" where
  "sent w = w\<lparr>calls := calls w + 1\<rparr>"

text \<open>
  The external service. Each endpoint answers a request that is sent as the \<open>n\<close>-th
  request of the run, so the service may answer the same request differently over time.
  The search and relation bodies are objects whose only member read by the program is
  \<^verbatim>\<open>data\<close>; the body is modelled by that member.
\<close>

record server =
  search_ep :: "nat \<Rightarrow> string \<Rightarrow> paper list member response"
  paper_ep :: "nat \<Rightarrow> string \<Rightarrow> paper response"
  relations_ep :: "nat \<Rightarrow> string \<Rightarrow> string \<Rightarrow> string \<Rightarrow> nat \<Rightarrow> entry list member response"

section \<open>request_with_retry\<close>

text \<open>
  The body of \<^verbatim>\<open>for i in range(max_retries)\<close>. \<open>send n\<close> is the answer to this request
  when it goes out as the \<open>n\<close>-th request. Falling out of the loop is the exhausted
  budget.
\<close>

primrec request_loop :: "(nat \<Rightarrow> 'b response) \<Rightarrow> nat list \<Rightarrow> world \<Rightarrow> 'b option \<times> world" where
  "request_loop send [] w = (None, w)"
| "request_loop send (i # rest) w =
     (case send (calls w) of
        RequestException \<Rightarrow> (None, sent w)
      | Response status_code body \<Rightarrow>
          if status_code = 200 then (Some body, sent w)
          else if status_code = 429 then
            request_loop send rest (sleep ((of_nat i + 1) * 3) (sent w))
          else (None, sent w))"

definition request_with_retry :: "(nat \<Rightarrow> 'b response) \<Rightarrow> int \<Rightarrow> world \<Rightarrow> 'b option \<times> world" where
  "request_with_retry send max_retries w = request_loop send [0..<nat max_retries] w"

text \<open>
  The default of \<^verbatim>\<open>max_retries\<close> in \<^verbatim>\<open>src/scholar/utils.py\<close> (used by the graph builder)
  and in \<^verbatim>\<open>src/utils.py\<close> (used by the stand-alone relation lookup). No caller passes
  another value.
\<close>

definition scholar_max_retries :: int where
  "scholar_max_retries = 10"

definition utils_max_retries :: int where
  "utils_max_retries = 5"

section \<open>search_paper\<close>

datatype error = KeyError | IndexError | TypeError

text \<open>
  Returns the id of the best match (\<^verbatim>\<open>None\<close> when nothing was found). \<^verbatim>\<open>p["paperId"]\<close>
  and \<^verbatim>\<open>p['title']\<close> raise on a missing key.
\<close>

definition search_paper :: "server \<Rightarrow> string \<Rightarrow> world \<Rightarrow> (error + string option) \<times> world" where
  "search_paper srv ttl w =
     (case request_with_retry (\<lambda>n. search_ep srv n ttl) scholar_max_retries w of
        (data, w') \<Rightarrow>
          (case data of
             Some (Val (p # _)) \<Rightarrow>
               (if paperId p = Absent \<or> title p = Absent then (Inl KeyError, w')
                else (Inr (get (paperId p)), w'))
           | _ \<Rightarrow> (Inr None, w')))"

section \<open>sort_papers\<close>

text \<open>The three dimensions of the sort key; Python orders \<^verbatim>\<open>False < True\<close> as 0 < 1.\<close>

definition dims :: "string \<Rightarrow> entry \<Rightarrow> string \<Rightarrow> int" where
  "dims paper_key x k =
     (let p = or_empty (entry_get x paper_key) in
      if k = ''citation'' then or_zero (get (citationCount p))
      else if k = ''influential'' then of_bool (truthy_bool (get (isInfluential x)))
      else or_zero (get (year p)))"

definition sort_order :: "string \<Rightarrow> string list" where
  "sort_order strategy =
     (let order = [''citation'', ''influential'', ''year''] in
      if strategy \<in> set order then strategy # remove1 strategy order else order)"

definition key_fn :: "string \<Rightarrow> string \<Rightarrow> entry \<Rightarrow> int list" where
  "key_fn paper_key strategy x = map (dims paper_key x) (sort_order strategy)"

text \<open>
  \<^verbatim>\<open>papers.sort(key=key_fn, reverse=True)\<close>: a stable sort in descending order of the
  key tuples (compared lexicographically); entries with equal keys keep their order.
\<close>

definition sort_papers :: "entry list \<Rightarrow> string \<Rightarrow> string \<Rightarrow> entry list" where
  "sort_papers papers paper_key strategy =
     rev (sort_key (key_fn paper_key strategy) (rev papers))"

section \<open>fetch_relations\<close>

definition passes_filter :: "string \<Rightarrow> bool \<Rightarrow> int option \<Rightarrow> int option \<Rightarrow> entry \<Rightarrow> bool" where
  "passes_filter paper_key influential_only since_year until_year x =
     (if influential_only \<and> \<not> truthy_bool (get (isInfluential x)) then False
      else
        let yr = get (year (or_empty (entry_get x paper_key))) in
        if (case since_year of
              None \<Rightarrow> False
            | Some s \<Rightarrow> s \<noteq> 0 \<and> (case yr of None \<Rightarrow> True | Some y \<Rightarrow> y = 0 \<or> y < s)) then False
        else if (case until_year of
              None \<Rightarrow> False
            | Some u \<Rightarrow> u \<noteq> 0 \<and> (case yr of None \<Rightarrow> True | Some y \<Rightarrow> y = 0 \<or> y > u)) then False
        else True)"

text \<open>\<^verbatim>\<open>xs[:n]\<close>: no bound for \<^verbatim>\<open>None\<close>, and a negative bound counts from the end.\<close>

definition slice_to :: "'a list \<Rightarrow> int option \<Rightarrow> 'a list" where
  "slice_to xs n =
     (case n of
        None \<Rightarrow> xs
      | Some k \<Rightarrow> if 0 \<le> k then take (nat k) xs else take (length xs - nat (- k)) xs)"

definition relation_fields :: "string \<Rightarrow> string" where
  "relation_fields paper_key =
     ''isInfluential,'' @ paper_key @ ''.paperId,'' @ paper_key @ ''.title,''
       @ paper_key @ ''.year,'' @ paper_key @ ''.citationCount''"

text \<open>
  The pagination loop \<^verbatim>\<open>while len(results) < fetch_limit\<close>. A missing, empty or failed
  page ends the loop with what has been accumulated; the loop goes on only after a page
  of at least 1000 entries, so the distance to \<open>fetch_limit\<close> shrinks.
\<close>

function fetch_pages ::
  "(nat \<Rightarrow> nat \<Rightarrow> entry list member response) \<Rightarrow> int \<Rightarrow> entry list \<Rightarrow> nat \<Rightarrow> world
     \<Rightarrow> entry list \<times> world" where
  "fetch_pages page fetch_limit results offset w =
     (if int (length results) < fetch_limit then
        (case request_with_retry (\<lambda>n. page n offset) scholar_max_retries w of
           (data, w') \<Rightarrow>
             (case data of
                Some (Val batch) \<Rightarrow>
                  if batch = [] then (results, w')
                  else if length batch < 1000 then (results @ batch, w')
                  else fetch_pages page fetch_limit (results @ batch) (offset + 1000) (sleep 1 w')
              | _ \<Rightarrow> (results, w')))
      else (results, w))"
  by pat_completeness auto
termination
  by (relation "measure (\<lambda>(page, fetch_limit, results, offset, w). nat (fetch_limit - int (length results)))")
     auto

declare fetch_pages.simps [simp del]

definition fetch_relations ::
  "server \<Rightarrow> string \<Rightarrow> string \<Rightarrow> string \<Rightarrow> bool \<Rightarrow> int option \<Rightarrow> int option \<Rightarrow> int option \<Rightarrow> int
     \<Rightarrow> world \<Rightarrow> (entry list \<times> string) \<times> world" where
  "fetch_relations srv paper_id relation_type sort_by influential_only since_year until_year
       num_results fetch_limit w =
     (let paper_key = (if relation_type = ''citations'' then ''citingPaper'' else ''citedPaper'');
          fields = relation_fields paper_key
      in case fetch_pages (\<lambda>n. relations_ep srv n paper_id relation_type fields) fetch_limit [] 0 w of
           (results, w') \<Rightarrow>
             (let results = filter (passes_filter paper_key influential_only since_year until_year) results;
                  results = slice_to (sort_papers results paper_key sort_by) num_results
              in ((results, paper_key), w')))"

section \<open>The directed graph\<close>

text \<open>
  \<^verbatim>\<open>networkx.DiGraph\<close> keeps its nodes and its edges in dictionaries, in insertion
  order. \<^verbatim>\<open>add_node\<close> of the library creates the node or overwrites the attributes of
  an existing one; \<^verbatim>\<open>add_edge\<close> creates the two endpoints when they are missing (with
  no attributes) and creates the edge or overwrites its attributes.

  The attributes of a node are those the program passes. \<open>tooltip\<close> holds the three
  values formatted into the HTML tooltip. \<open>layer\<close> records the argument \<^verbatim>\<open>layer\<close> of
  the call that created the node: the program itself keeps only what it derives from it
  (\<open>border\<close> and \<open>borderWidth\<close>).
\<close>

record node_attrs =
  label :: string
  tooltip :: "string \<times> int member \<times> int"
  border :: string
  node_size :: real
  borderWidth :: int
  layer :: int

record edge_attrs =
  color :: string
  edge_width :: int

record digraph =
  nodes :: "(string \<times> node_attrs option) list"
  edges :: "((string \<times> string) \<times> edge_attrs) list"

definition has_node :: "digraph \<Rightarrow> string \<Rightarrow> bool" where
  "has_node g n \<longleftrightarrow> n \<in> fst ` set (nodes g)"

definition has_edge :: "digraph \<Rightarrow> string \<Rightarrow> string \<Rightarrow> bool" where
  "has_edge g u v \<longleftrightarrow> (u, v) \<in> fst ` set (edges g)"

definition nx_add_node :: "digraph \<Rightarrow> string \<Rightarrow> node_attrs \<Rightarrow> digraph" where
  "nx_add_node g n attrs = g\<lparr>nodes := AList.update n (Some attrs) (nodes g)\<rparr>"

definition nx_touch_node :: "string \<Rightarrow> (string \<times> node_attrs option) list \<Rightarrow> (string \<times> node_attrs option) list" where
  "nx_touch_node n ns = (if n \<in> fst ` set ns then ns else ns @ [(n, None)])"

definition nx_add_edge :: "digraph \<Rightarrow> string \<Rightarrow> string \<Rightarrow> edge_attrs \<Rightarrow> digraph" where
  "nx_add_edge g u v attrs =
     g\<lparr>nodes := nx_touch_node v (nx_touch_node u (nodes g)),
       edges := AList.update (u, v) attrs (edges g)\<rparr>"

definition number_of_nodes :: "digraph \<Rightarrow> nat" where
  "number_of_nodes g = length (nodes g)"

section \<open>PaperGraph\<close>

type_synonym cache_key = "string \<times> string \<times> bool \<times> int option \<times> int option"

type_synonym relation_record = "(paper option \<times> bool option) list"

record paper_graph =
  G :: digraph
  visited :: "string set"
  cache :: "cache_key \<rightharpoonup> relation_record"

definition init :: paper_graph where
  "init = \<lparr>G = \<lparr>nodes = [], edges = []\<rparr>, visited = {}, cache = Map.empty\<rparr>"

text \<open>
  \<^verbatim>\<open>add_node\<close>. \<^verbatim>\<open>paper_info.get('title', 'Unknown')\<close> is \<^verbatim>\<open>None\<close> when the key holds
  \<^verbatim>\<open>null\<close>, and \<^verbatim>\<open>len(title)\<close> then raises. Titles are compared and cut as lists of
  characters.
\<close>

definition get_title :: "paper \<Rightarrow> string option" where
  "get_title paper_info =
     (case title paper_info of Absent \<Rightarrow> Some ''Unknown'' | Null \<Rightarrow> None | Val s \<Rightarrow> Some s)"

definition node_style :: "paper \<Rightarrow> string \<Rightarrow> int \<Rightarrow> node_attrs" where
  "node_style paper_info ttl lay =
     (let citations = or_zero (get (citationCount paper_info)) in
      \<lparr>label = (if length ttl > 20 then take 20 ttl @ ''...'' else ttl),
       tooltip = (ttl, year paper_info, citations),
       border = (if lay = 0 then ''#0066ff'' else ''#888888''),
       node_size = 10 + log 10 (of_int (max citations 1)) * 5,
       borderWidth = (if lay = 0 then 3 else 1),
       layer = lay\<rparr>)"

definition add_node :: "paper_graph \<Rightarrow> paper \<Rightarrow> int \<Rightarrow> error + bool \<times> paper_graph" where
  "add_node pg paper_info lay =
     (if \<not> dict_truthy paper_info then Inr (False, pg)
      else
        (case get (paperId paper_info) of
           None \<Rightarrow> Inr (False, pg)
         | Some pid \<Rightarrow>
             (if pid = [] then Inr (False, pg)
              else if has_node (G pg) pid then Inr (True, pg)
              else
                (case get_title paper_info of
                   None \<Rightarrow> Inl TypeError
                 | Some ttl \<Rightarrow>
                     Inr (True, pg\<lparr>G := nx_add_node (G pg) pid (node_style paper_info ttl lay)\<rparr>)))))"

text \<open>\<^verbatim>\<open>item.get("isInfluential", False)\<close>.\<close>

definition get_influential :: "entry \<Rightarrow> bool option" where
  "get_influential item = (case isInfluential item of Absent \<Rightarrow> Some False | Null \<Rightarrow> None | Val b \<Rightarrow> Some b)"

text \<open>
  \<^verbatim>\<open>_get_relations\<close>: the memoised retrieval. The key is built from five of the six
  arguments; \<open>fetch_limit\<close> is passed to the retrieval only.
\<close>

definition get_relations ::
  "server \<Rightarrow> string \<Rightarrow> string \<Rightarrow> bool \<Rightarrow> int option \<Rightarrow> int option \<Rightarrow> int
     \<Rightarrow> paper_graph \<times> world \<Rightarrow> relation_record \<times> paper_graph \<times> world" where
  "get_relations srv paper_id relation_type influential_only since_year until_year fetch_limit s =
     (case s of (pg, w) \<Rightarrow>
        (let cache_key = (paper_id, relation_type, influential_only, since_year, until_year) in
         case cache pg cache_key of
           Some r \<Rightarrow> (r, pg, w)
         | None \<Rightarrow>
             (case fetch_relations srv paper_id relation_type ''citation'' influential_only
                     since_year until_year None fetch_limit w of
                ((items, key), w') \<Rightarrow>
                  (let r = map (\<lambda>item. (entry_get item key, get_influential item)) items
                   in (r, pg\<lparr>cache := (cache pg)(cache_key \<mapsto> r)\<rparr>, w')))))"

definition add_edge :: "paper_graph \<Rightarrow> string \<Rightarrow> string \<Rightarrow> bool option \<Rightarrow> paper_graph" where
  "add_edge pg source target is_influential =
     (if \<not> has_node (G pg) source \<or> \<not> has_node (G pg) target then pg
      else if has_edge (G pg) source target then pg
      else pg\<lparr>G := nx_add_edge (G pg) source target
             \<lparr>color = (if truthy_bool is_influential then ''#666666'' else ''#dddddd''),
              edge_width = (if truthy_bool is_influential then 3 else 1)\<rparr>\<rparr>)"

section \<open>build\<close>

text \<open>
  The keyword arguments of \<^verbatim>\<open>build\<close>. \<^verbatim>\<open>width\<close> is an integer or a sequence of
  integers.
\<close>

datatype width_arg = WidthInt int | WidthList "int list"

record build_args =
  mode :: string
  depth :: int
  width :: width_arg
  influential_only :: bool
  since_year :: "int option"
  until_year :: "int option"
  fetch_limit :: int

definition widths :: "build_args \<Rightarrow> int list" where
  "widths args = (case width args of WidthInt n \<Rightarrow> [n] | WidthList ws \<Rightarrow> ws)"

definition directions :: "build_args \<Rightarrow> string list" where
  "directions args = (if mode args = ''all'' then [''references'', ''citations''] else [mode args])"

text \<open>\<^verbatim>\<open>xs[i]\<close>: a negative index counts from the end, and an index out of range raises.\<close>

definition index :: "'a list \<Rightarrow> int \<Rightarrow> error + 'a" where
  "index xs i =
     (if 0 \<le> i \<and> i < int (length xs) then Inr (xs ! nat i)
      else if i < 0 \<and> - int (length xs) \<le> i then Inr (xs ! nat (int (length xs) + i))
      else Inl IndexError)"

text \<open>
  The id of a related publication that the loop body goes on with: the object is present
  and not empty, and its \<^verbatim>\<open>paperId\<close> is a non-empty string.
\<close>

definition info_truthy :: "paper option \<Rightarrow> bool" where
  "info_truthy info = (case info of None \<Rightarrow> False | Some p \<Rightarrow> dict_truthy p)"

definition present_id :: "paper option \<Rightarrow> string option" where
  "present_id p_info =
     (case p_info of
        None \<Rightarrow> None
      | Some p \<Rightarrow>
          if \<not> dict_truthy p \<or> \<not> truthy_str (get (paperId p)) then None else get (paperId p))"

type_synonym queue = "(string \<times> int) list"

text \<open>One round of \<^verbatim>\<open>for p_info, is_influential in items\<close>.\<close>

definition expand_item ::
  "build_args \<Rightarrow> string \<Rightarrow> int \<Rightarrow> string \<Rightarrow> paper option \<times> bool option
     \<Rightarrow> paper_graph \<times> queue \<Rightarrow> error + paper_graph \<times> queue" where
  "expand_item args current_pid current_depth m item s =
     (case (item, s) of ((p_info, is_influential), (pg, q)) \<Rightarrow>
        (case (p_info, present_id p_info) of
           (Some p, Some target_id) \<Rightarrow>
             (case add_node pg p (current_depth + 1) of
                Inl e \<Rightarrow> Inl e
              | Inr (_, pg1) \<Rightarrow>
                  (let pg2 = (if m = ''references''
                              then add_edge pg1 current_pid target_id is_influential
                              else add_edge pg1 target_id current_pid is_influential)
                   in if target_id \<notin> visited pg2 then
                        Inr (pg2\<lparr>visited := insert target_id (visited pg2)\<rparr>,
                             if current_depth + 1 < depth args
                             then q @ [(target_id, current_depth + 1)] else q)
                      else Inr (pg2, q)))
         | _ \<Rightarrow> Inr (pg, q)))"

fun expand_items ::
  "build_args \<Rightarrow> string \<Rightarrow> int \<Rightarrow> string \<Rightarrow> relation_record
     \<Rightarrow> paper_graph \<times> queue \<Rightarrow> error + paper_graph \<times> queue" where
  "expand_items args current_pid current_depth m [] s = Inr s"
| "expand_items args current_pid current_depth m (item # items) s =
     (case expand_item args current_pid current_depth m item s of
        Inl e \<Rightarrow> Inl e
      | Inr s' \<Rightarrow> expand_items args current_pid current_depth m items s')"

text \<open>One round of \<^verbatim>\<open>for m in directions\<close>.\<close>

definition expand_direction ::
  "server \<Rightarrow> build_args \<Rightarrow> string \<Rightarrow> int \<Rightarrow> string
     \<Rightarrow> paper_graph \<times> world \<times> queue \<Rightarrow> error + paper_graph \<times> world \<times> queue" where
  "expand_direction srv args current_pid current_depth m s =
     (case s of (pg, w, q) \<Rightarrow>
        (case index (widths args) (min current_depth (int (length (widths args)) - 1)) of
           Inl e \<Rightarrow> Inl e
         | Inr cur_width \<Rightarrow>
             (case get_relations srv current_pid m (influential_only args) (since_year args)
                     (until_year args) (fetch_limit args) (pg, w) of
                (rels, pg', w') \<Rightarrow>
                  (let items = filter (\<lambda>(info, inf). info_truthy info)
                                 (slice_to rels (Some cur_width))
                   in case expand_items args current_pid current_depth m items (pg', q) of
                        Inl e \<Rightarrow> Inl e
                      | Inr (pg'', q') \<Rightarrow> Inr (pg'', w', q')))))"

fun expand_directions ::
  "server \<Rightarrow> build_args \<Rightarrow> string \<Rightarrow> int \<Rightarrow> string list
     \<Rightarrow> paper_graph \<times> world \<times> queue \<Rightarrow> error + paper_graph \<times> world \<times> queue" where
  "expand_directions srv args current_pid current_depth [] s = Inr s"
| "expand_directions srv args current_pid current_depth (m # ms) s =
     (case expand_direction srv args current_pid current_depth m s of
        Inl e \<Rightarrow> Inl e
      | Inr s' \<Rightarrow> expand_directions srv args current_pid current_depth ms s')"

text \<open>Every entry that a round appends to the queue is one level below the expanded node.\<close>

lemma expand_item_queue:
  "expand_item args cp cd m item (pg, q) = Inr (pg', q') \<Longrightarrow>
   \<exists>new. q' = q @ new \<and> (\<forall>x \<in> set new. snd x = cd + 1 \<and> cd + 1 < depth args)"
  by (auto simp: expand_item_def Let_def split: prod.splits option.splits sum.splits if_splits)

lemma expand_items_queue:
  "expand_items args cp cd m items (pg, q) = Inr (pg', q') \<Longrightarrow>
   \<exists>new. q' = q @ new \<and> (\<forall>x \<in> set new. snd x = cd + 1 \<and> cd + 1 < depth args)"
proof (induction items arbitrary: pg q)
  case Nil
  then show ?case by simp
next
  case (Cons item items)
  from Cons.prems obtain pg1 q1 where
    a: "expand_item args cp cd m item (pg, q) = Inr (pg1, q1)" and
    b: "expand_items args cp cd m items (pg1, q1) = Inr (pg', q')"
    by (auto split: sum.splits)
  from expand_item_queue[OF a] Cons.IH[OF b] show ?case
    by (metis append.assoc set_append Un_iff)
qed

lemma expand_direction_queue:
  "expand_direction srv args cp cd m (pg, w, q) = Inr (pg', w', q') \<Longrightarrow>
   \<exists>new. q' = q @ new \<and> (\<forall>x \<in> set new. snd x = cd + 1 \<and> cd + 1 < depth args)"
  by (auto simp: expand_direction_def split: prod.splits sum.splits dest: expand_items_queue)

lemma expand_directions_queue:
  "expand_directions srv args cp cd ms (pg, w, q) = Inr (pg', w', q') \<Longrightarrow>
   \<exists>new. q' = q @ new \<and> (\<forall>x \<in> set new. snd x = cd + 1 \<and> cd + 1 < depth args)"
proof (induction ms arbitrary: pg w q)
  case Nil
  then show ?case by simp
next
  case (Cons m ms)
  from Cons.prems obtain pg1 w1 q1 where
    a: "expand_direction srv args cp cd m (pg, w, q) = Inr (pg1, w1, q1)" and
    b: "expand_directions srv args cp cd ms (pg1, w1, q1) = Inr (pg', w', q')"
    by (auto split: sum.splits)
  from expand_direction_queue[OF a] Cons.IH[OF b] show ?case
    by (metis append.assoc set_append Un_iff)
qed

text \<open>
  The queue holds depths below \<open>depth\<close> only, and a round replaces the head by entries
  one level deeper: the multiset of the distances to \<open>depth\<close> decreases.
\<close>

definition queue_weight :: "build_args \<Rightarrow> queue \<Rightarrow> nat multiset" where
  "queue_weight args q = mset (map (\<lambda>(p, d). nat (depth args - d)) q)"

lemma queue_weight_pop: "(queue_weight args q, queue_weight args (x # q)) \<in> mult less_than"
proof -
  have "(queue_weight args q + {#}, queue_weight args q + {#(\<lambda>(p, d). nat (depth args - d)) x#}) \<in> mult less_than"
    by (rule one_step_implies_mult) auto
  then show ?thesis by (simp add: queue_weight_def)
qed

lemma queue_weight_expand:
  assumes "d < depth args" and "\<forall>x \<in> set new. snd x = d + 1"
  shows "(queue_weight args (q @ new), queue_weight args ((pid, d) # q)) \<in> mult less_than"
proof -
  have "(queue_weight args q + queue_weight args new, queue_weight args q + {#nat (depth args - d)#}) \<in> mult less_than"
  proof (rule one_step_implies_mult)
    show "\<forall>k\<in>#queue_weight args new. \<exists>j\<in>#{#nat (depth args - d)#}. (k, j) \<in> less_than"
      using assms by (auto simp: queue_weight_def)
  qed simp
  then show ?thesis by (simp add: queue_weight_def)
qed

text \<open>
  \<^verbatim>\<open>while queue\<close>: the head is popped; a head at the depth ceiling is skipped, any
  other head is expanded in every direction, and the loop sleeps half a second.
\<close>

function bfs :: "server \<Rightarrow> build_args \<Rightarrow> queue \<Rightarrow> paper_graph \<times> world \<Rightarrow> error + paper_graph \<times> world" where
  "bfs srv args [] s = Inr s"
| "bfs srv args ((current_pid, current_depth) # q) s =
     (if current_depth \<ge> depth args then bfs srv args q s
      else
        (case expand_directions srv args current_pid current_depth (directions args)
                (fst s, snd s, q) of
           Inl e \<Rightarrow> Inl e
         | Inr (pg', w', q') \<Rightarrow> bfs srv args q' (pg', sleep (1 / 2) w')))"
  by pat_completeness auto
termination
  apply (relation "inv_image (mult less_than) (\<lambda>(srv, args, q, s). queue_weight args q)")
    apply (intro wf_inv_image wf_mult wf_less_than)
   apply (simp add: queue_weight_pop)
  subgoal for srv args current_pid current_depth q s x2 pg' y w' q'
    using expand_directions_queue[of srv args current_pid current_depth "directions args" "fst s" "snd s" q pg' w' q']
    by (auto intro!: queue_weight_expand)
  done

declare bfs.simps [simp del]

section \<open>Densification, save, main\<close>

text \<open>
  \<^verbatim>\<open>ref_info.get('paperId') if ref_info else None\<close>, and the inner loop of the pass over
  one reference list. \<open>ns\<close> is the snapshot \<^verbatim>\<open>set(self.G.nodes())\<close>.
\<close>

definition ref_id_of :: "paper option \<Rightarrow> string option" where
  "ref_id_of ref_info =
     (case ref_info of None \<Rightarrow> None | Some p \<Rightarrow> if dict_truthy p then get (paperId p) else None)"

fun densify_refs :: "string set \<Rightarrow> string \<Rightarrow> relation_record \<Rightarrow> paper_graph \<Rightarrow> paper_graph" where
  "densify_refs ns pid [] pg = pg"
| "densify_refs ns pid ((ref_info, is_influential) # rest) pg =
     (case ref_id_of ref_info of
        None \<Rightarrow> densify_refs ns pid rest pg
      | Some ref_id \<Rightarrow>
          if ref_id \<in> ns then densify_refs ns pid rest (add_edge pg pid ref_id is_influential)
          else densify_refs ns pid rest pg)"

fun densify :: "server \<Rightarrow> build_args \<Rightarrow> string set \<Rightarrow> string list \<Rightarrow> paper_graph \<times> world \<Rightarrow> paper_graph \<times> world" where
  "densify srv args ns [] s = s"
| "densify srv args ns (pid # pids) s =
     (case get_relations srv pid ''references'' (influential_only args) (since_year args)
             (until_year args) (fetch_limit args) s of
        (refs, pg', w') \<Rightarrow> densify srv args ns pids (densify_refs ns pid refs pg', w'))"

text \<open>
  \<^verbatim>\<open>build\<close>. Python does not fix the order in which \<^verbatim>\<open>for pid in nodes\<close> walks the
  set of node ids; \<open>set_iter\<close> stands for it and maps the list of ids to the order of
  the walk.
\<close>

definition build ::
  "server \<Rightarrow> (string list \<Rightarrow> string list) \<Rightarrow> build_args \<Rightarrow> string \<Rightarrow> paper_graph \<times> world
     \<Rightarrow> error + paper_graph \<times> world" where
  "build srv set_iter args start_title s =
     (case s of (pg, w) \<Rightarrow>
        (case search_paper srv start_title w of
           (Inl e, w1) \<Rightarrow> Inl e
         | (Inr found, w1) \<Rightarrow>
             (case found of
                None \<Rightarrow> Inr (pg, w1)
              | Some root_id \<Rightarrow>
                  if root_id = [] then Inr (pg, w1)
                  else
                    (case request_with_retry (\<lambda>n. paper_ep srv n root_id) scholar_max_retries w1 of
                       (None, w2) \<Rightarrow> Inr (pg, w2)
                     | (Some root_data, w2) \<Rightarrow>
                         if \<not> dict_truthy root_data then Inr (pg, w2)
                         else
                           (case add_node pg root_data 0 of
                              Inl e \<Rightarrow> Inl e
                            | Inr (_, pg1) \<Rightarrow>
                                (case bfs srv args [(root_id, 0)]
                                        (pg1\<lparr>visited := insert root_id (visited pg1)\<rparr>, w2) of
                                   Inl e \<Rightarrow> Inl e
                                 | Inr (pg2, w3) \<Rightarrow>
                                     (let ns = map fst (nodes (G pg2))
                                      in Inr (densify srv args (set ns) (set_iter ns) (pg2, w3)))))))))"

text \<open>\<^verbatim>\<open>save\<close>: an empty graph is reported and nothing is written.\<close>

datatype save_result = Graph_empty | File_written string

definition save :: "paper_graph \<Rightarrow> string \<Rightarrow> save_result" where
  "save pg filename = (if number_of_nodes (G pg) = 0 then Graph_empty else File_written filename)"

text \<open>\<^verbatim>\<open>main\<close> of the graph command, with the file name already formatted.\<close>

definition main ::
  "server \<Rightarrow> (string list \<Rightarrow> string list) \<Rightarrow> build_args \<Rightarrow> string \<Rightarrow> bool \<Rightarrow> string \<Rightarrow> world
     \<Rightarrow> error + save_result option \<times> world" where
  "main srv set_iter args ttl save_results filename w =
     (case build srv set_iter args ttl (init, w) of
        Inl e \<Rightarrow> Inl e
      | Inr (g, w') \<Rightarrow> Inr (if save_results then Some (save g filename) else None, w'))"

section \<open>Statements of the specification\<close>

text \<open>
  The sort in the words of the specification. The three dimensions are the citation
  count of the related publication (0 when it is not given), whether the relation is
  flagged influential (1 or 0), and the publication year (an unknown year counts as 0).
  The values are read off the entry itself.
\<close>

datatype dimension = Citation | Influential | Year

fun dimension_name :: "dimension \<Rightarrow> string" where
  "dimension_name Citation = ''citation''"
| "dimension_name Influential = ''influential''"
| "dimension_name Year = ''year''"

definition related_publication :: "string \<Rightarrow> entry \<Rightarrow> paper option" where
  "related_publication paper_key x =
     (case (if paper_key = ''citingPaper'' then citingPaper x
            else if paper_key = ''citedPaper'' then citedPaper x else Absent) of
        Val p \<Rightarrow> Some p
      | _ \<Rightarrow> None)"

definition known_or_zero :: "int member \<Rightarrow> int" where
  "known_or_zero v = (case v of Val n \<Rightarrow> n | _ \<Rightarrow> 0)"

fun spec_dim :: "dimension \<Rightarrow> string \<Rightarrow> entry \<Rightarrow> int" where
  "spec_dim Citation paper_key x =
     (case related_publication paper_key x of None \<Rightarrow> 0 | Some p \<Rightarrow> known_or_zero (citationCount p))"
| "spec_dim Influential paper_key x = (if isInfluential x = Val True then 1 else 0)"
| "spec_dim Year paper_key x =
     (case related_publication paper_key x of None \<Rightarrow> 0 | Some p \<Rightarrow> known_or_zero (year p))"

text \<open>
  The tuple that orders the entries: the primary dimension first, then the dimensions not
  chosen as primary, in the fallback order citation count, influential, year.
\<close>

definition spec_tuple :: "string \<Rightarrow> dimension \<Rightarrow> entry \<Rightarrow> int list" where
  "spec_tuple paper_key primary x =
     map (\<lambda>d. spec_dim d paper_key x)
       (primary # filter (\<lambda>d. d \<noteq> primary) [Citation, Influential, Year])"

text \<open>
  Tuples are compared position by position: the first is not below the second when it
  is larger at the first position where they differ, or when they do not differ.
\<close>

fun lex_ge :: "int list \<Rightarrow> int list \<Rightarrow> bool" where
  "lex_ge [] ys = (ys = [])"
| "lex_ge (a # as) [] = True"
| "lex_ge (a # as) (b # bs) = (b < a \<or> (a = b \<and> lex_ge as bs))"

text \<open>
  The filter in the words of the specification: the influence flag is true when only
  influential entries are wanted, and for each bound that is given the year is known and
  inside the bound.
\<close>

definition spec_keeps :: "string \<Rightarrow> bool \<Rightarrow> int option \<Rightarrow> int option \<Rightarrow> entry \<Rightarrow> bool" where
  "spec_keeps paper_key io since until x \<longleftrightarrow>
     (io \<longrightarrow> get (isInfluential x) = Some True)
   \<and> (\<forall>s. since = Some s \<longrightarrow> (\<exists>y. get (year (or_empty (entry_get x paper_key))) = Some y \<and> s \<le> y))
   \<and> (\<forall>u. until = Some u \<longrightarrow> (\<exists>y. get (year (or_empty (entry_get x paper_key))) = Some y \<and> y \<le> u))"

text \<open>A relation entry of the \<^verbatim>\<open>references\<close> endpoint, for the concrete instances below.\<close>

definition mk_entry :: "bool \<Rightarrow> string \<Rightarrow> int member \<Rightarrow> int \<Rightarrow> entry" where
  "mk_entry flag pid yr cites =
     \<lparr>isInfluential = Val flag, citingPaper = Absent,
      citedPaper = Val \<lparr>paperId = Val pid, title = Val pid, year = yr, citationCount = Val cites\<rparr>\<rparr>"

text \<open>
  A directed simple graph: no two nodes with the same id, no two edges with the same
  ordered pair, and both ends of every edge among the nodes.
\<close>

definition simple_digraph :: "digraph \<Rightarrow> bool" where
  "simple_digraph g \<longleftrightarrow>
     distinct (map fst (nodes g)) \<and> distinct (map fst (edges g))
     \<and> (\<forall>u v a. ((u, v), a) \<in> set (edges g) \<longrightarrow> has_node g u \<and> has_node g v)"

text \<open>Every node carries attributes, with a layer between 0 and \<open>D\<close>.\<close>

definition layered :: "int \<Rightarrow> digraph \<Rightarrow> bool" where
  "layered D g \<longleftrightarrow>
     (\<forall>na \<in> set (nodes g). \<exists>a. snd na = Some a \<and> 0 \<le> layer a \<and> layer a \<le> D)"

text \<open>The ids of the nodes with their layers, and those of a completed build.\<close>

definition layers_of :: "paper_graph \<Rightarrow> (string \<times> int option) list" where
  "layers_of pg = map (\<lambda>na. (fst na, map_option layer (snd na))) (nodes (G pg))"

definition completed_layers :: "error + paper_graph \<times> world \<Rightarrow> (string \<times> int option) list option" where
  "completed_layers r = (case r of Inl e \<Rightarrow> None | Inr s \<Rightarrow> Some (layers_of (fst s)))"

text \<open>
  The second graph has the nodes of the first, and the edges of the first followed by
  edges that the first did not have, between nodes of the first.
\<close>

definition only_new_edges :: "digraph \<Rightarrow> digraph \<Rightarrow> bool" where
  "only_new_edges g g' \<longleftrightarrow>
     nodes g' = nodes g
     \<and> (\<exists>new. edges g' = edges g @ new
           \<and> (\<forall>u v a. ((u, v), a) \<in> set new \<longrightarrow> has_node g u \<and> has_node g v \<and> \<not> has_edge g u v))"

text \<open>
  Concrete instances: a fresh world, and a service that knows one publication \<open>X\<close> with
  the two references \<open>A\<close> and \<open>B\<close>, where \<open>B\<close> refers to \<open>A\<close>; and the arguments of a
  build of depth 1 that follows the references, two for each node.
\<close>

definition w0 :: world where
  "w0 = \<lparr>calls = 0, sleeps = []\<rparr>"

definition seed :: paper where
  "seed = \<lparr>paperId = Val ''X'', title = Val ''Seed'', year = Val 2017, citationCount = Val 100\<rparr>"

definition srv0 :: server where
  "srv0 = \<lparr>
     search_ep = (\<lambda>n q. Response 200 (Val [seed])),
     paper_ep = (\<lambda>n pid. if pid = ''X'' then Response 200 seed else Response 404 empty_dict),
     relations_ep = (\<lambda>n pid rel fields offset.
        if pid = ''X'' \<and> rel = ''references'' \<and> offset = 0
        then Response 200 (Val [mk_entry False ''A'' (Val 2001) 50, mk_entry True ''B'' (Val 1999) 80])
        else if pid = ''B'' \<and> rel = ''references'' \<and> offset = 0
        then Response 200 (Val [mk_entry True ''A'' (Val 2001) 50])
        else Response 200 (Val []))\<rparr>"

definition args0 :: build_args where
  "args0 = \<lparr>mode = ''references'', depth = 1, width = WidthInt 2, influential_only = False,
             since_year = None, until_year = None, fetch_limit = 10000\<rparr>"

text \<open>The relation record of the references of \<open>X\<close>, and the cache that holds it.\<close>

definition rec_X :: relation_record where
  "rec_X = [(Some \<lparr>paperId = Val ''B'', title = Val ''B'', year = Val 1999, citationCount = Val 80\<rparr>, Some True),
            (Some \<lparr>paperId = Val ''A'', title = Val ''A'', year = Val 2001, citationCount = Val 50\<rparr>, Some False)]"

definition pg_X :: paper_graph where
  "pg_X = init\<lparr>cache := [(''X'', ''references'', False, None, None) \<mapsto> rec_X]\<rparr>"

text \<open>
  The state of the builder on that service after the seed has been added, and after the
  breadth-first expansion under \<open>args0\<close>.
\<close>

definition paper_A :: paper where
  "paper_A = \<lparr>paperId = Val ''A'', title = Val ''A'', year = Val 2001, citationCount = Val 50\<rparr>"

definition paper_B :: paper where
  "paper_B = \<lparr>paperId = Val ''B'', title = Val ''B'', year = Val 1999, citationCount = Val 80\<rparr>"

definition pg_seed0 :: paper_graph where
  "pg_seed0 = \<lparr>G = \<lparr>nodes = [(''X'', Some (node_style seed ''Seed'' 0))], edges = []\<rparr>,
               visited = {''X''}, cache = Map.empty\<rparr>"

definition pg_bfs0 :: paper_graph where
  "pg_bfs0 =
     \<lparr>G = \<lparr>nodes = [(''X'', Some (node_style seed ''Seed'' 0)),
                     (''B'', Some (node_style paper_B ''B'' 1)),
                     (''A'', Some (node_style paper_A ''A'' 1))],
            edges = [((''X'', ''B''), \<lparr>color = ''#666666'', edge_width = 3\<rparr>),
                     ((''X'', ''A''), \<lparr>color = ''#dddddd'', edge_width = 1\<rparr>)]\<rparr>,
      visited = {''A'', ''B'', ''X''},
      cache = [(''X'', ''references'', False, None, None) \<mapsto> rec_X]\<rparr>"

text \<open>
  A service whose details endpoint answers without the id of the publication, and on
  which \<open>X\<close> and \<open>B\<close> refer to each other; and the arguments of a build of depth 2.
\<close>

definition seed_no_id :: paper where
  "seed_no_id = \<lparr>paperId = Absent, title = Val ''Seed'', year = Val 2017, citationCount = Val 100\<rparr>"

definition srv_noid :: server where
  "srv_noid = \<lparr>
     search_ep = (\<lambda>n q. Response 200 (Val [seed])),
     paper_ep = (\<lambda>n pid. Response 200 seed_no_id),
     relations_ep = (\<lambda>n pid rel fields offset.
        if pid = ''X'' \<and> rel = ''references'' \<and> offset = 0
        then Response 200 (Val [mk_entry True ''B'' (Val 1999) 80])
        else if pid = ''B'' \<and> rel = ''references'' \<and> offset = 0
        then Response 200 (Val [mk_entry True ''X'' (Val 2017) 100])
        else Response 200 (Val []))\<rparr>"

definition args_deep :: build_args where
  "args_deep = \<lparr>mode = ''references'', depth = 2, width = WidthInt 2, influential_only = False,
             since_year = None, until_year = None, fetch_limit = 10000\<rparr>"

text \<open>Six relation entries with ties in the year and in the citation count.\<close>

definition sample :: "entry list" where
  "sample = [mk_entry False ''a'' (Val 2001) 50, mk_entry True ''b'' (Val 2001) 50,
             mk_entry True ''c'' (Val 1999) 80, mk_entry True ''d'' (Val 2001) 10,
             mk_entry True ''e'' Null 90, mk_entry True ''f'' (Val 2001) 10]"

text \<open>The same service with a failing details endpoint.\<close>

definition srv1 :: server where
  "srv1 = srv0\<lparr>paper_ep := (\<lambda>n pid. Response 500 empty_dict)\<rparr>"

section \<open>The retry policy\<close>

lemma request_loop_429:
  "\<forall>j<k. \<exists>b. send (calls w + j) = Response 429 b \<Longrightarrow> k \<le> length is \<Longrightarrow>
   request_loop send is w =
     request_loop send (drop k is)
       (w\<lparr>calls := calls w + k, sleeps := sleeps w @ map (\<lambda>i. (of_nat i + 1) * 3) (take k is)\<rparr>)"
proof (induction "is" arbitrary: k w)
  case Nil
  then show ?case by simp
next
  case (Cons i "is")
  show ?case
  proof (cases k)
    case 0
    then show ?thesis by simp
  next
    case (Suc k')
    from Cons.prems(1) Suc obtain b where b: "send (calls w) = Response 429 b"
      by (metis add.right_neutral zero_less_Suc)
    let ?w = "sleep ((of_nat i + 1) * 3) (sent w)"
    have "\<forall>j<k'. \<exists>b. send (calls ?w + j) = Response 429 b"
      using Cons.prems(1) Suc by (auto simp: sleep_def sent_def)
    moreover have "k' \<le> length is" using Cons.prems(2) Suc by simp
    ultimately have "request_loop send is ?w =
       request_loop send (drop k' is)
         (?w\<lparr>calls := calls ?w + k', sleeps := sleeps ?w @ map (\<lambda>i. (of_nat i + 1) * 3) (take k' is)\<rparr>)"
      by (rule Cons.IH)
    then show ?thesis using b Suc by (simp add: sleep_def sent_def)
  qed
qed

definition backoff :: "nat \<Rightarrow> rat list" where
  "backoff k = map (\<lambda>i. (of_nat i + 1) * 3) [0..<k]"

lemma request_with_retry_429:
  assumes "\<forall>j<k. \<exists>b. send (calls w + j) = Response 429 b" and "k \<le> nat max_retries"
  shows "request_with_retry send max_retries w =
     request_loop send [k..<nat max_retries]
       (w\<lparr>calls := calls w + k, sleeps := sleeps w @ backoff k\<rparr>)"
proof -
  have "k \<le> length [0..<nat max_retries]" using assms(2) by simp
  from request_loop_429[OF assms(1) this]
  show ?thesis using assms(2) by (simp add: request_with_retry_def backoff_def take_upt)
qed

text \<open>
  C7. Let the first \<open>k\<close> attempts of a request be answered with status 429, \<open>k\<close> within
  the budget. The fetcher has then sent \<open>k\<close> requests and slept 3, 6, ..., \<open>3k\<close> seconds,
  one sleep after each of them. If that was the whole budget it returns the failure value.
  Otherwise it sends one more request and returns at once: the body on status 200, the
  failure value on a transport fault or on any status other than 200 and 429. The budget
  is 10 in the module of the graph builder and 5 in the module of the stand-alone lookup.
\<close>

theorem request_with_retry_policy:
  assumes "\<forall>j<k. \<exists>b. send (calls w + j) = Response 429 b" and "k \<le> nat max_retries"
  shows "(k = nat max_retries \<longrightarrow>
            request_with_retry send max_retries w =
              (None, w\<lparr>calls := calls w + k, sleeps := sleeps w @ backoff k\<rparr>))
       \<and> (k < nat max_retries \<longrightarrow>
            (\<forall>body. send (calls w + k) = Response 200 body \<longrightarrow>
               request_with_retry send max_retries w =
                 (Some body, w\<lparr>calls := calls w + k + 1, sleeps := sleeps w @ backoff k\<rparr>))
          \<and> (send (calls w + k) = RequestException
               \<or> (\<exists>c body. send (calls w + k) = Response c body \<and> c \<noteq> 200 \<and> c \<noteq> 429) \<longrightarrow>
               request_with_retry send max_retries w =
                 (None, w\<lparr>calls := calls w + k + 1, sleeps := sleeps w @ backoff k\<rparr>)))
       \<and> scholar_max_retries = 10 \<and> utils_max_retries = 5"
proof -
  note eq = request_with_retry_429[OF assms]
  have a: "k = nat max_retries \<longrightarrow>
            request_with_retry send max_retries w =
              (None, w\<lparr>calls := calls w + k, sleeps := sleeps w @ backoff k\<rparr>)"
    using eq by auto
  have b: "k < nat max_retries \<Longrightarrow> [k..<nat max_retries] = k # [Suc k..<nat max_retries]"
    by (simp add: upt_conv_Cons)
  have c: "k < nat max_retries \<longrightarrow>
            (\<forall>body. send (calls w + k) = Response 200 body \<longrightarrow>
               request_with_retry send max_retries w =
                 (Some body, w\<lparr>calls := calls w + k + 1, sleeps := sleeps w @ backoff k\<rparr>))"
    using eq b by (auto simp: sent_def)
  have d: "k < nat max_retries \<longrightarrow>
           (send (calls w + k) = RequestException
               \<or> (\<exists>c body. send (calls w + k) = Response c body \<and> c \<noteq> 200 \<and> c \<noteq> 429) \<longrightarrow>
               request_with_retry send max_retries w =
                 (None, w\<lparr>calls := calls w + k + 1, sleeps := sleeps w @ backoff k\<rparr>))"
    using eq b by (auto simp: sent_def)
  show ?thesis using a c d by (simp add: scholar_max_retries_def utils_max_retries_def)
qed

theorem request_with_retry_policy_witness:
  "request_with_retry (\<lambda>n. if n < 3 then Response 429 ''wait'' else Response 200 ''ok'')
       scholar_max_retries \<lparr>calls = 0, sleeps = []\<rparr>
     = (Some ''ok'', \<lparr>calls = 4, sleeps = [3, 6, 9]\<rparr>)"
  using request_with_retry_policy
          [of 3 "\<lambda>n. if n < 3 then Response 429 ''wait'' else Response 200 ''ok''"
              "\<lparr>calls = 0, sleeps = []\<rparr>" scholar_max_retries]
  by (simp add: backoff_def upt_conv_Cons scholar_max_retries_def)

section \<open>The sort\<close>

lemma lex_ge_iff: "lex_ge xs ys \<longleftrightarrow> ys \<le> xs"
  by (induction xs ys rule: lex_ge.induct) auto

lemma dims_spec_dim: "dims paper_key x (dimension_name d) = spec_dim d paper_key x"
  by (cases d; cases "isInfluential x"; cases "citingPaper x"; cases "citedPaper x")
     (auto simp: dims_def Let_def related_publication_def known_or_zero_def entry_get_def
        or_empty_def or_zero_def truthy_bool_def empty_dict_def split: member.splits)

lemma key_fn_spec_tuple:
  "key_fn paper_key (dimension_name primary) = spec_tuple paper_key primary"
proof
  fix x
  have d: "\<And>d. dims paper_key x (dimension_name d) = spec_dim d paper_key x"
    by (rule dims_spec_dim)
  show "key_fn paper_key (dimension_name primary) x = spec_tuple paper_key primary x"
    using d[of Citation] d[of Influential] d[of Year]
    by (cases primary) (simp_all add: key_fn_def spec_tuple_def sort_order_def)
qed

lemma mset_sort_papers: "mset (sort_papers xs paper_key strategy) = mset xs"
  by (simp add: sort_papers_def)

lemma length_sort_papers: "length (sort_papers xs paper_key strategy) = length xs"
  by (simp add: sort_papers_def)

lemma sort_papers_descending:
  "sorted_wrt (\<lambda>x y. key_fn paper_key strategy y \<le> key_fn paper_key strategy x)
     (sort_papers xs paper_key strategy)"
proof -
  have "sorted (map (key_fn paper_key strategy) (sort_key (key_fn paper_key strategy) (rev xs)))"
    by (rule sorted_sort_key)
  then show ?thesis
    by (simp add: sort_papers_def sorted_wrt_rev sorted_map)
qed

lemma sort_papers_stable:
  "filter (\<lambda>x. key_fn paper_key strategy x = k) (sort_papers xs paper_key strategy)
     = filter (\<lambda>x. key_fn paper_key strategy x = k) xs"
  by (simp add: sort_papers_def rev_filter [symmetric] sort_key_stable)

lemma sort_papers_idem:
  "sort_papers (sort_papers xs paper_key strategy) paper_key strategy
     = sort_papers xs paper_key strategy"
  by (simp add: sort_papers_def sort_key_id_if_sorted)

text \<open>
  C5. For each primary key (citation, influential, year), the key that the sort
  compares is the tuple of the specification: the value of the primary dimension, then
  the values of the other two in the order citation count, influential, year. The result
  is a rearrangement of the input in descending order of that tuple; entries with equal
  tuples keep their order of the input, so the result is determined by the input; and
  sorting a sorted list again changes nothing.
\<close>

theorem sort_papers_descending_by_tuple:
  "key_fn paper_key (dimension_name primary) = spec_tuple paper_key primary
   \<and> mset (sort_papers xs paper_key (dimension_name primary)) = mset xs
   \<and> sorted_wrt (\<lambda>x y. lex_ge (spec_tuple paper_key primary x) (spec_tuple paper_key primary y))
        (sort_papers xs paper_key (dimension_name primary))
   \<and> (\<forall>k. filter (\<lambda>x. spec_tuple paper_key primary x = k)
             (sort_papers xs paper_key (dimension_name primary))
          = filter (\<lambda>x. spec_tuple paper_key primary x = k) xs)
   \<and> sort_papers (sort_papers xs paper_key (dimension_name primary)) paper_key
        (dimension_name primary)
        = sort_papers xs paper_key (dimension_name primary)"
  using sort_papers_descending[of paper_key "dimension_name primary" xs]
    sort_papers_stable[of paper_key "dimension_name primary" _ xs]
  by (simp add: key_fn_spec_tuple lex_ge_iff mset_sort_papers sort_papers_idem)

lemma sample_by_year:
  "sort_papers sample ''citedPaper'' ''year''
     = [mk_entry True ''b'' (Val 2001) 50, mk_entry False ''a'' (Val 2001) 50,
        mk_entry True ''d'' (Val 2001) 10, mk_entry True ''f'' (Val 2001) 10,
        mk_entry True ''c'' (Val 1999) 80, mk_entry True ''e'' Null 90]"
  by (simp add: sample_def sort_papers_def key_fn_def sort_order_def dims_def mk_entry_def
        entry_get_def or_empty_def or_zero_def truthy_bool_def)

lemma sample_by_influential:
  "sort_papers sample ''citedPaper'' ''influential''
     = [mk_entry True ''e'' Null 90, mk_entry True ''c'' (Val 1999) 80,
        mk_entry True ''b'' (Val 2001) 50, mk_entry True ''d'' (Val 2001) 10,
        mk_entry True ''f'' (Val 2001) 10, mk_entry False ''a'' (Val 2001) 50]"
  by (simp add: sample_def sort_papers_def key_fn_def sort_order_def dims_def mk_entry_def
        entry_get_def or_empty_def or_zero_def truthy_bool_def)

theorem sort_papers_descending_by_tuple_witness:
  "sort_papers sample ''citedPaper'' ''year''
     = [mk_entry True ''b'' (Val 2001) 50, mk_entry False ''a'' (Val 2001) 50,
        mk_entry True ''d'' (Val 2001) 10, mk_entry True ''f'' (Val 2001) 10,
        mk_entry True ''c'' (Val 1999) 80, mk_entry True ''e'' Null 90]
   \<and> map (spec_tuple ''citedPaper'' Year) (sort_papers sample ''citedPaper'' ''year'')
     = [[2001, 50, 1], [2001, 50, 0], [2001, 10, 1], [2001, 10, 1], [1999, 80, 1], [0, 90, 1]]
   \<and> sort_papers sample ''citedPaper'' ''influential''
     = [mk_entry True ''e'' Null 90, mk_entry True ''c'' (Val 1999) 80,
        mk_entry True ''b'' (Val 2001) 50, mk_entry True ''d'' (Val 2001) 10,
        mk_entry True ''f'' (Val 2001) 10, mk_entry False ''a'' (Val 2001) 50]
   \<and> map (spec_tuple ''citedPaper'' Influential) (sort_papers sample ''citedPaper'' ''influential'')
     = [[1, 90, 0], [1, 80, 1999], [1, 50, 2001], [1, 10, 2001], [1, 10, 2001], [0, 50, 2001]]"
proof -
  have y: "map (key_fn ''citedPaper'' ''year'') (sort_papers sample ''citedPaper'' ''year'')
     = [[2001, 50, 1], [2001, 50, 0], [2001, 10, 1], [2001, 10, 1], [1999, 80, 1], [0, 90, 1]]"
    unfolding sample_by_year
    by (simp add: key_fn_def sort_order_def dims_def mk_entry_def
        entry_get_def or_empty_def or_zero_def truthy_bool_def)
  have i: "map (key_fn ''citedPaper'' ''influential'') (sort_papers sample ''citedPaper'' ''influential'')
     = [[1, 90, 0], [1, 80, 1999], [1, 50, 2001], [1, 10, 2001], [1, 10, 2001], [0, 50, 2001]]"
    unfolding sample_by_influential
    by (simp add: key_fn_def sort_order_def dims_def mk_entry_def
        entry_get_def or_empty_def or_zero_def truthy_bool_def)
  from sort_papers_descending_by_tuple[of "''citedPaper''" Year sample]
  have ky: "key_fn ''citedPaper'' ''year'' = spec_tuple ''citedPaper'' Year" by simp
  from sort_papers_descending_by_tuple[of "''citedPaper''" Influential sample]
  have ki: "key_fn ''citedPaper'' ''influential'' = spec_tuple ''citedPaper'' Influential" by simp
  from y i show ?thesis
    unfolding ky ki using sample_by_year sample_by_influential by simp
qed


section \<open>The filter\<close>

text \<open>
  A since-year bound of 0 is given, the year of the entry is unknown, and the entry is
  kept: the filter of the code differs from the filter of the specification.
\<close>

theorem passes_filter_zero_bound_counterexample:
  "passes_filter ''citedPaper'' False (Some 0) None (mk_entry False ''a'' Null 50)
   \<and> \<not> spec_keeps ''citedPaper'' False (Some 0) None (mk_entry False ''a'' Null 50)"
  by (simp add: passes_filter_def spec_keeps_def mk_entry_def entry_get_def or_empty_def)

text \<open>
  C6, amended. The filter keeps an entry if and only if its influence flag is true when
  only influential entries are wanted, and for each year bound that is given and is not 0
  the year of the entry is known, is not 0 and lies inside the bound (bounds included).
  A bound of 0 counts as not given, and a year of 0 as unknown.
\<close>

theorem passes_filter_iff:
  "passes_filter paper_key io since until x \<longleftrightarrow>
     (io \<longrightarrow> get (isInfluential x) = Some True)
   \<and> (\<forall>s. since = Some s \<and> s \<noteq> 0 \<longrightarrow>
         (\<exists>y. get (year (or_empty (entry_get x paper_key))) = Some y \<and> y \<noteq> 0 \<and> s \<le> y))
   \<and> (\<forall>u. until = Some u \<and> u \<noteq> 0 \<longrightarrow>
         (\<exists>y. get (year (or_empty (entry_get x paper_key))) = Some y \<and> y \<noteq> 0 \<and> y \<le> u))"
  by (auto simp: passes_filter_def truthy_bool_def Let_def split: option.splits)

theorem passes_filter_iff_witness:
  "passes_filter ''citedPaper'' True (Some 2000) (Some 2010) (mk_entry True ''a'' (Val 2005) 50)
   \<and> \<not> passes_filter ''citedPaper'' True (Some 2000) (Some 2010) (mk_entry True ''a'' Null 50)
   \<and> \<not> passes_filter ''citedPaper'' True (Some 2000) (Some 2010) (mk_entry True ''a'' (Val 2011) 50)
   \<and> \<not> passes_filter ''citedPaper'' True (Some 2000) (Some 2010) (mk_entry False ''a'' (Val 2005) 50)"
  using passes_filter_iff[of "''citedPaper''" True "Some 2000" "Some 2010" "mk_entry True ''a'' (Val 2005) 50"]
     passes_filter_iff[of "''citedPaper''" True "Some 2000" "Some 2010" "mk_entry True ''a'' Null 50"]
     passes_filter_iff[of "''citedPaper''" True "Some 2000" "Some 2010" "mk_entry True ''a'' (Val 2011) 50"]
     passes_filter_iff[of "''citedPaper''" True "Some 2000" "Some 2010" "mk_entry False ''a'' (Val 2005) 50"]
  by (simp add: mk_entry_def entry_get_def or_empty_def)


section \<open>Pagination\<close>

lemma fetch_pages_done:
  "\<not> int (length results) < fl \<Longrightarrow> fetch_pages page fl results off w = (results, w)"
  by (simp add: fetch_pages.simps)

lemma fetch_pages_failed:
  "int (length results) < fl \<Longrightarrow>
   request_with_retry (\<lambda>n. page n off) scholar_max_retries w = (None, w') \<Longrightarrow>
   fetch_pages page fl results off w = (results, w')"
  by (simp add: fetch_pages.simps)

lemma fetch_pages_last:
  "int (length results) < fl \<Longrightarrow>
   request_with_retry (\<lambda>n. page n off) scholar_max_retries w = (Some (Val batch), w') \<Longrightarrow>
   length batch < 1000 \<Longrightarrow>
   fetch_pages page fl results off w = (results @ batch, w')"
  by (simp add: fetch_pages.simps)

lemma fetch_pages_more:
  "int (length results) < fl \<Longrightarrow>
   request_with_retry (\<lambda>n. page n off) scholar_max_retries w = (Some (Val batch), w') \<Longrightarrow>
   \<not> length batch < 1000 \<Longrightarrow>
   fetch_pages page fl results off w =
     fetch_pages page fl (results @ batch) (off + 1000) (sleep 1 w')"
  by (subst fetch_pages.simps) auto

lemma request_ok:
  "send (calls w) = Response 200 body \<Longrightarrow>
   request_with_retry send scholar_max_retries w = (Some body, sent w)"
  by (simp add: request_with_retry_def scholar_max_retries_def upt_conv_Cons)

lemma request_other:
  "send (calls w) = Response c body \<Longrightarrow> c \<noteq> 200 \<Longrightarrow> c \<noteq> 429 \<Longrightarrow>
   request_with_retry send scholar_max_retries w = (None, sent w)"
  by (simp add: request_with_retry_def scholar_max_retries_def upt_conv_Cons)

text \<open>
  C8. With a fetch limit of 1 and a service whose first page holds two entries, the
  retrieval returns both entries: the record is longer than the fetch limit.
\<close>

theorem fetch_limit_overshoot:
  "fst (fetch_relations srv0 ''X'' ''references'' ''citation'' False None None None 1 w0)
     = ([mk_entry True ''B'' (Val 1999) 80, mk_entry False ''A'' (Val 2001) 50], ''citedPaper'')
   \<and> \<not> int (length (fst (fst (fetch_relations srv0 ''X'' ''references'' ''citation'' False None None None 1 w0)))) \<le> 1"
proof -
  let ?page = "\<lambda>n. relations_ep srv0 n ''X'' ''references'' (relation_fields ''citedPaper'')"
  have req: "request_with_retry (\<lambda>n. ?page n 0) scholar_max_retries w0
      = (Some (Val [mk_entry False ''A'' (Val 2001) 50, mk_entry True ''B'' (Val 1999) 80]), sent w0)"
    by (rule request_ok) (simp add: srv0_def)
  have pages: "fetch_pages ?page 1 [] 0 w0
      = ([mk_entry False ''A'' (Val 2001) 50, mk_entry True ''B'' (Val 1999) 80], sent w0)"
    using fetch_pages_last[of "[]" 1 ?page 0 w0, OF _ req] by simp
  have "fst (fetch_relations srv0 ''X'' ''references'' ''citation'' False None None None 1 w0)
     = ([mk_entry True ''B'' (Val 1999) 80, mk_entry False ''A'' (Val 2001) 50], ''citedPaper'')"
    unfolding fetch_relations_def
    by (simp add: pages Let_def slice_to_def passes_filter_def sort_papers_def key_fn_def
          sort_order_def dims_def mk_entry_def entry_get_def or_empty_def or_zero_def
          truthy_bool_def)
  then show ?thesis by simp
qed



section \<open>The cache\<close>

lemma get_relations_hit:
  "cache pg (p, r, io, since, until) = Some v \<Longrightarrow>
   get_relations srv p r io since until fl (pg, w) = (v, pg, w)"
  by (simp add: get_relations_def)

lemma get_relations_stores:
  "get_relations srv p r io since until fl (pg, w) = (v, pg', w') \<Longrightarrow>
   cache pg' (p, r, io, since, until) = Some v"
  by (auto simp: get_relations_def Let_def split: option.splits prod.splits)

lemma get_relations_other_key:
  "get_relations srv p r io since until fl (pg, w) = (v, pg', w') \<Longrightarrow>
   k \<noteq> (p, r, io, since, until) \<Longrightarrow> cache pg' k = cache pg k"
  by (auto simp: get_relations_def Let_def split: option.splits prod.splits)

lemma get_relations_cache_grows:
  "get_relations srv p r io since until fl (pg, w) = (v, pg', w') \<Longrightarrow> cache pg \<subseteq>\<^sub>m cache pg'"
  by (auto simp: get_relations_def Let_def map_le_def split: option.splits prod.splits)

lemma get_relations_graph:
  "get_relations srv p r io since until fl (pg, w) = (v, pg', w') \<Longrightarrow>
   G pg' = G pg \<and> visited pg' = visited pg"
  by (auto simp: get_relations_def Let_def split: option.splits prod.splits)

lemma fetch_X_refs:
  "fetch_relations srv0 ''X'' ''references'' ''citation'' False None None None 10000 w
     = (([mk_entry True ''B'' (Val 1999) 80, mk_entry False ''A'' (Val 2001) 50], ''citedPaper''), sent w)"
proof -
  let ?page = "\<lambda>n. relations_ep srv0 n ''X'' ''references'' (relation_fields ''citedPaper'')"
  have req: "request_with_retry (\<lambda>n. ?page n 0) scholar_max_retries w
      = (Some (Val [mk_entry False ''A'' (Val 2001) 50, mk_entry True ''B'' (Val 1999) 80]), sent w)"
    by (rule request_ok) (simp add: srv0_def)
  have pages: "fetch_pages ?page 10000 [] 0 w
      = ([mk_entry False ''A'' (Val 2001) 50, mk_entry True ''B'' (Val 1999) 80], sent w)"
    using fetch_pages_last[of "[]" 10000 ?page 0 w, OF _ req] by simp
  show ?thesis
    unfolding fetch_relations_def
    by (simp add: pages Let_def slice_to_def passes_filter_def sort_papers_def key_fn_def
          sort_order_def dims_def mk_entry_def entry_get_def or_empty_def or_zero_def
          truthy_bool_def)
qed

lemma get_X_refs:
  "get_relations srv0 ''X'' ''references'' False None None 10000 (init, w0) = (rec_X, pg_X, sent w0)"
  by (simp add: get_relations_def init_def fetch_X_refs Let_def rec_X_def pg_X_def mk_entry_def
        entry_get_def get_influential_def)



text \<open>
  Two queries that differ in the fetch limit only. On a fresh cache the query with limit 0
  retrieves the empty record; asked after the query with limit 10000 it gets the record of
  that query, without a request.
\<close>

theorem fetch_limit_not_in_key_counterexample:
  "get_relations srv0 ''X'' ''references'' False None None 10000 (init, w0) = (rec_X, pg_X, sent w0)
   \<and> get_relations srv0 ''X'' ''references'' False None None 0 (pg_X, sent w0) = (rec_X, pg_X, sent w0)
   \<and> fst (get_relations srv0 ''X'' ''references'' False None None 0 (init, w0)) = []
   \<and> rec_X \<noteq> []"
proof -
  have "fst (get_relations srv0 ''X'' ''references'' False None None 0 (init, w0)) = []"
    by (simp add: get_relations_def init_def fetch_relations_def fetch_pages_done Let_def
          slice_to_def sort_papers_def)
  moreover have "get_relations srv0 ''X'' ''references'' False None None 0 (pg_X, sent w0) = (rec_X, pg_X, sent w0)"
    by (simp add: get_relations_def pg_X_def)
  ultimately show ?thesis using get_X_refs by (simp add: rec_X_def)
qed

text \<open>
  C9, amended. The cache key has five components: publication id, relation type,
  influential-only flag, since-year and until-year. After a call for a query, a call that
  agrees with it on these five returns the cached record without a request, whatever its
  fetch limit; the entries of the cache under all other keys are as they were.
\<close>

theorem cache_key_five_components:
  assumes "get_relations srv p r io since until fl (pg, w) = (v, pg1, w1)"
  shows "get_relations srv2 p r io since until fl2 (pg1, w2) = (v, pg1, w2)
       \<and> (\<forall>k. k \<noteq> (p, r, io, since, until) \<longrightarrow> cache pg1 k = cache pg k)"
  using get_relations_hit[OF get_relations_stores[OF assms]] get_relations_other_key[OF assms]
  by simp

theorem cache_key_five_components_witness:
  "get_relations srv0 ''X'' ''references'' False None None 0 (pg_X, sent w0) = (rec_X, pg_X, sent w0)
   \<and> cache pg_X (''X'', ''citations'', False, None, None) = None"
  using cache_key_five_components[OF get_X_refs, of srv0 0 "sent w0"]
  by (simp add: init_def)

section \<open>Invariants of the graph\<close>

lemma update_fresh: "k \<notin> fst ` set al \<Longrightarrow> AList.update k v al = al @ [(k, v)]"
  by (induction al) auto

lemma add_node_cases:
  assumes "add_node pg p lay = Inr (b, pg')"
  shows "pg' = pg \<or>
         (\<exists>pid ttl. get (paperId p) = Some pid \<and> pid \<noteq> [] \<and> \<not> has_node (G pg) pid
            \<and> pg' = pg\<lparr>G := (G pg)\<lparr>nodes := nodes (G pg) @ [(pid, Some (node_style p ttl lay))]\<rparr>\<rparr>)"
  using assms
  by (auto simp: add_node_def nx_add_node_def has_node_def update_fresh
           split: if_splits option.splits)

lemma layer_node_style: "layer (node_style p ttl lay) = lay"
  by (simp add: node_style_def Let_def)

lemma add_edge_cases:
  "add_edge pg s t f = pg \<or>
   (has_node (G pg) s \<and> has_node (G pg) t \<and> \<not> has_edge (G pg) s t
      \<and> (\<exists>a. add_edge pg s t f = pg\<lparr>G := (G pg)\<lparr>edges := edges (G pg) @ [((s, t), a)]\<rparr>\<rparr>))"
  by (auto simp: add_edge_def nx_add_edge_def nx_touch_node_def has_node_def has_edge_def update_fresh)

lemma add_node_simple:
  "add_node pg p lay = Inr (b, pg') \<Longrightarrow> simple_digraph (G pg) \<Longrightarrow> simple_digraph (G pg')"
  by (drule add_node_cases) (fastforce simp: simple_digraph_def has_node_def)

lemma add_edge_simple: "simple_digraph (G pg) \<Longrightarrow> simple_digraph (G (add_edge pg s t f))"
  using add_edge_cases[of pg s t f]
  by (fastforce simp: simple_digraph_def has_node_def has_edge_def)

lemma add_node_layered:
  "add_node pg p lay = Inr (b, pg') \<Longrightarrow> 0 \<le> lay \<Longrightarrow> lay \<le> D \<Longrightarrow> layered D (G pg)
     \<Longrightarrow> layered D (G pg')"
  by (drule add_node_cases) (auto simp: layered_def layer_node_style)

lemma add_edge_nodes: "nodes (G (add_edge pg s t f)) = nodes (G pg)"
  using add_edge_cases[of pg s t f] by auto

lemma add_edge_visited: "visited (add_edge pg s t f) = visited pg"
  using add_edge_cases[of pg s t f] by auto

lemma add_edge_cache: "cache (add_edge pg s t f) = cache pg"
  using add_edge_cases[of pg s t f] by auto


lemma expand_item_inv:
  assumes node: "\<And>pg p b pg'. P (G pg) \<Longrightarrow> add_node pg p (cd + 1) = Inr (b, pg') \<Longrightarrow> P (G pg')"
    and edge: "\<And>pg s t f. P (G pg) \<Longrightarrow> P (G (add_edge pg s t f))"
    and run: "expand_item args cp cd m item (pg, q) = Inr (pg', q')"
    and start: "P (G pg)"
  shows "P (G pg')"
proof (cases item)
  case (Pair p_info is_influential)
  show ?thesis
  proof (cases "present_id p_info")
    case None
    with run Pair start show ?thesis
      by (auto simp: expand_item_def split: option.splits)
  next
    case (Some target_id)
    then obtain p where p: "p_info = Some p"
      by (cases p_info) (auto simp: present_id_def)
    from run Pair Some p obtain b pg1 where
      an: "add_node pg p (cd + 1) = Inr (b, pg1)"
      by (auto simp: expand_item_def split: sum.splits)
    from node[OF start an] have p1: "P (G pg1)" .
    define pg2 where "pg2 = (if m = ''references''
                              then add_edge pg1 cp target_id is_influential
                              else add_edge pg1 target_id cp is_influential)"
    have p2: "P (G pg2)" using p1 edge by (simp add: pg2_def)
    from run Pair Some p an have "G pg' = G pg2"
      by (auto simp: expand_item_def pg2_def Let_def split: if_splits)
    with p2 show ?thesis by simp
  qed
qed

lemma expand_items_inv:
  assumes node: "\<And>pg p b pg'. P (G pg) \<Longrightarrow> add_node pg p (cd + 1) = Inr (b, pg') \<Longrightarrow> P (G pg')"
    and edge: "\<And>pg s t f. P (G pg) \<Longrightarrow> P (G (add_edge pg s t f))"
  shows "expand_items args cp cd m items (pg, q) = Inr (pg', q') \<Longrightarrow> P (G pg) \<Longrightarrow> P (G pg')"
proof (induction items arbitrary: pg q)
  case Nil
  then show ?case by simp
next
  case (Cons item items)
  from Cons.prems(1) obtain pg1 q1 where
    a: "expand_item args cp cd m item (pg, q) = Inr (pg1, q1)" and
    b: "expand_items args cp cd m items (pg1, q1) = Inr (pg', q')"
    by (auto split: sum.splits)
  from expand_item_inv[of P cd, OF node edge a Cons.prems(2)] have "P (G pg1)" .
  with Cons.IH[OF b] show ?case .
qed

lemma expand_direction_inv:
  assumes node: "\<And>pg p b pg'. P (G pg) \<Longrightarrow> add_node pg p (cd + 1) = Inr (b, pg') \<Longrightarrow> P (G pg')"
    and edge: "\<And>pg s t f. P (G pg) \<Longrightarrow> P (G (add_edge pg s t f))"
    and run: "expand_direction srv args cp cd m (pg, w, q) = Inr (pg', w', q')"
    and start: "P (G pg)"
  shows "P (G pg')"
proof -
  from run obtain cur_width rels pg1 w1 where
    g: "get_relations srv cp m (influential_only args) (since_year args) (until_year args)
          (fetch_limit args) (pg, w) = (rels, pg1, w1)" and
    e: "expand_items args cp cd m
          (filter (\<lambda>(info, inf). info_truthy info) (slice_to rels (Some cur_width))) (pg1, q)
        = Inr (pg', q')"
    by (auto simp: expand_direction_def Let_def split: sum.splits prod.splits)
  from g have "G pg1 = G pg"
    by (auto simp: get_relations_def Let_def split: option.splits prod.splits)
  with start have "P (G pg1)" by simp
  from expand_items_inv[of P cd, OF node edge e this] show ?thesis .
qed

lemma expand_directions_inv:
  assumes node: "\<And>pg p b pg'. P (G pg) \<Longrightarrow> add_node pg p (cd + 1) = Inr (b, pg') \<Longrightarrow> P (G pg')"
    and edge: "\<And>pg s t f. P (G pg) \<Longrightarrow> P (G (add_edge pg s t f))"
  shows "expand_directions srv args cp cd ms (pg, w, q) = Inr (pg', w', q') \<Longrightarrow> P (G pg)
           \<Longrightarrow> P (G pg')"
proof (induction ms arbitrary: pg w q)
  case Nil
  then show ?case by simp
next
  case (Cons m ms)
  from Cons.prems(1) obtain pg1 w1 q1 where
    a: "expand_direction srv args cp cd m (pg, w, q) = Inr (pg1, w1, q1)" and
    b: "expand_directions srv args cp cd ms (pg1, w1, q1) = Inr (pg', w', q')"
    by (auto split: sum.splits)
  from expand_direction_inv[of P cd, OF node edge a Cons.prems(2)] have "P (G pg1)" .
  with Cons.IH[OF b] show ?case .
qed

lemma bfs_inv:
  assumes node: "\<And>pg p lay b pg'. P (G pg) \<Longrightarrow> 1 \<le> lay \<Longrightarrow> lay \<le> depth args \<Longrightarrow>
                   add_node pg p lay = Inr (b, pg') \<Longrightarrow> P (G pg')"
    and edge: "\<And>pg s t f. P (G pg) \<Longrightarrow> P (G (add_edge pg s t f))"
  shows "bfs srv args q s = Inr s' \<Longrightarrow> \<forall>x \<in> set q. 0 \<le> snd x \<Longrightarrow> P (G (fst s))
           \<Longrightarrow> P (G (fst s'))"
  using node edge
proof (induction srv args q s rule: bfs.induct)
  case (1 srv args s)
  then show ?case by (simp add: bfs.simps)
next
  case (2 srv args current_pid current_depth q s)
  note run = "2.prems"(1) and qpos = "2.prems"(2) and start = "2.prems"(3)
    and node = "2.prems"(4) and edge = "2.prems"(5)
  show ?case
  proof (cases "depth args \<le> current_depth")
    case True
    with run have "bfs srv args q s = Inr s'" by (simp add: bfs.simps)
    from "2.IH"(1)[OF True this _ start node edge] qpos show ?thesis by simp
  next
    case False
    with run obtain pg1 w1 q1 where
      a: "expand_directions srv args current_pid current_depth (directions args) (fst s, snd s, q)
            = Inr (pg1, w1, q1)" and
      b: "bfs srv args q1 (pg1, sleep (1 / 2) w1) = Inr s'"
      by (auto simp: bfs.simps split: sum.splits)
    have d0: "0 \<le> current_depth" using qpos by simp
    have nd: "\<And>pg p b pg'. P (G pg) \<Longrightarrow> add_node pg p (current_depth + 1) = Inr (b, pg') \<Longrightarrow> P (G pg')"
      using node[of _ "current_depth + 1"] False d0 by simp
    from expand_directions_inv[of P current_depth, OF nd edge a start]
    have p1: "P (G pg1)" .
    from expand_directions_queue[OF a] obtain new where
      "q1 = q @ new" "\<forall>x \<in> set new. snd x = current_depth + 1"
      by blast
    with qpos d0 have q1: "\<forall>x \<in> set q1. 0 \<le> snd x" by auto
    from "2.IH"(2)[OF False a refl refl b q1 _ node edge] p1
    show ?thesis by simp
  qed
qed


lemma only_new_edges_refl: "only_new_edges g g"
  by (simp add: only_new_edges_def)

lemma only_new_edges_trans:
  assumes "only_new_edges g g'" and "only_new_edges g' g''"
  shows "only_new_edges g g''"
proof -
  from assms(1) obtain n1 where
    1: "nodes g' = nodes g" "edges g' = edges g @ n1"
       "\<forall>u v a. ((u, v), a) \<in> set n1 \<longrightarrow> has_node g u \<and> has_node g v \<and> \<not> has_edge g u v"
    by (auto simp: only_new_edges_def)
  from assms(2) obtain n2 where
    2: "nodes g'' = nodes g'" "edges g'' = edges g' @ n2"
       "\<forall>u v a. ((u, v), a) \<in> set n2 \<longrightarrow> has_node g' u \<and> has_node g' v \<and> \<not> has_edge g' u v"
    by (auto simp: only_new_edges_def)
  have "has_node g' = has_node g" using 1 by (simp add: has_node_def fun_eq_iff)
  moreover have "\<And>u v. \<not> has_edge g' u v \<Longrightarrow> \<not> has_edge g u v"
    using 1 by (auto simp: has_edge_def)
  ultimately have "\<forall>u v a. ((u, v), a) \<in> set (n1 @ n2) \<longrightarrow> has_node g u \<and> has_node g v \<and> \<not> has_edge g u v"
    using 1(3) 2(3) by (metis Un_iff set_append)
  moreover have "edges g'' = edges g @ (n1 @ n2)" using 1 2 by simp
  moreover have "nodes g'' = nodes g" using 1 2 by simp
  ultimately show ?thesis unfolding only_new_edges_def by blast
qed

lemma add_edge_only_new: "only_new_edges (G pg) (G (add_edge pg s t f))"
  using add_edge_cases[of pg s t f] by (auto simp: only_new_edges_def)

lemma densify_refs_only_new: "only_new_edges (G pg) (G (densify_refs ns pid refs pg))"
proof (induction refs arbitrary: pg)
  case Nil
  show ?case by (simp add: only_new_edges_refl)
next
  case (Cons r refs)
  obtain ref_info is_influential where r: "r = (ref_info, is_influential)" by (cases r)
  show ?case
  proof (cases "ref_id_of ref_info")
    case None
    with r Cons.IH show ?thesis by simp
  next
    case (Some ref_id)
    show ?thesis
    proof (cases "ref_id \<in> ns")
      case True
      have "only_new_edges (G pg) (G (add_edge pg pid ref_id is_influential))"
        by (rule add_edge_only_new)
      from only_new_edges_trans[OF this Cons.IH] r Some True show ?thesis by simp
    next
      case False
      with r Some Cons.IH show ?thesis by simp
    qed
  qed
qed

lemma densify_only_new:
  "densify srv args ns pids (pg, w) = (pg', w') \<Longrightarrow> only_new_edges (G pg) (G pg')"
proof (induction pids arbitrary: pg w)
  case Nil
  then show ?case by (simp add: only_new_edges_refl)
next
  case (Cons pid pids)
  obtain refs pg1 w1 where
    g: "get_relations srv pid ''references'' (influential_only args) (since_year args)
          (until_year args) (fetch_limit args) (pg, w) = (refs, pg1, w1)"
    by (metis prod_cases3)
  from g have eq: "G pg1 = G pg"
    by (auto simp: get_relations_def Let_def split: option.splits prod.splits)
  from Cons.prems g have "densify srv args ns pids (densify_refs ns pid refs pg1, w1) = (pg', w')"
    by simp
  from Cons.IH[OF this] have "only_new_edges (G (densify_refs ns pid refs pg1)) (G pg')" .
  from only_new_edges_trans[OF densify_refs_only_new this] eq show ?case by simp
qed

lemma densify_refs_inv:
  assumes edge: "\<And>pg s t f. P (G pg) \<Longrightarrow> P (G (add_edge pg s t f))"
  shows "P (G pg) \<Longrightarrow> P (G (densify_refs ns pid refs pg))"
proof (induction refs arbitrary: pg)
  case Nil
  then show ?case by simp
next
  case (Cons r refs)
  then show ?case using edge by (cases r) (auto split: option.splits)
qed

lemma densify_inv:
  assumes edge: "\<And>pg s t f. P (G pg) \<Longrightarrow> P (G (add_edge pg s t f))"
  shows "densify srv args ns pids (pg, w) = (pg', w') \<Longrightarrow> P (G pg) \<Longrightarrow> P (G pg')"
proof (induction pids arbitrary: pg w)
  case Nil
  then show ?case by simp
next
  case (Cons pid pids)
  obtain refs pg1 w1 where
    g: "get_relations srv pid ''references'' (influential_only args) (since_year args)
          (until_year args) (fetch_limit args) (pg, w) = (refs, pg1, w1)"
    by (metis prod_cases3)
  from g have eq: "G pg1 = G pg"
    by (auto simp: get_relations_def Let_def split: option.splits prod.splits)
  from Cons.prems(1) g have d: "densify srv args ns pids (densify_refs ns pid refs pg1, w1) = (pg', w')"
    by simp
  have "P (G (densify_refs ns pid refs pg1))"
    using densify_refs_inv[of P, OF edge] Cons.prems(2) eq by simp
  from Cons.IH[OF d this] show ?case .
qed



lemma build_Inr_cases:
  assumes run: "build srv set_iter args ttl (pg, w) = Inr (pg', w')"
  shows "pg' = pg \<or>
         (\<exists>root_id root_data b pg1 w2 pg2 w3.
            add_node pg root_data 0 = Inr (b, pg1)
          \<and> bfs srv args [(root_id, 0)] (pg1\<lparr>visited := insert root_id (visited pg1)\<rparr>, w2)
              = Inr (pg2, w3)
          \<and> densify srv args (set (map fst (nodes (G pg2)))) (set_iter (map fst (nodes (G pg2))))
                (pg2, w3) = (pg', w'))"
proof -
  obtain r w1 where s: "search_paper srv ttl w = (r, w1)"
    by (cases "search_paper srv ttl w")
  show ?thesis
  proof (cases r)
    case (Inl e)
    with run s show ?thesis by (simp add: build_def)
  next
    case (Inr found)
    show ?thesis
    proof (cases found)
      case None
      with run s Inr show ?thesis by (simp add: build_def)
    next
      case (Some root_id)
      obtain d w2 where rq:
        "request_with_retry (\<lambda>n. paper_ep srv n root_id) scholar_max_retries w1 = (d, w2)"
        by (cases "request_with_retry (\<lambda>n. paper_ep srv n root_id) scholar_max_retries w1")
      have early: "root_id = [] \<or> d = None \<or> (\<exists>rd. d = Some rd \<and> \<not> dict_truthy rd) \<Longrightarrow> pg' = pg"
      proof (elim disjE exE conjE)
        assume "root_id = []"
        with run s Inr Some show ?thesis by (simp add: build_def)
      next
        assume "d = None"
        with run s Inr Some rq show ?thesis by (cases "root_id = []") (simp_all add: build_def)
      next
        fix rd assume "d = Some rd" "\<not> dict_truthy rd"
        with run s Inr Some rq show ?thesis by (cases "root_id = []") (simp_all add: build_def)
      qed
      show ?thesis
      proof (cases "root_id = [] \<or> d = None \<or> (\<exists>rd. d = Some rd \<and> \<not> dict_truthy rd)")
        case True
        with early show ?thesis by blast
      next
        case False
        then obtain root_data where d: "d = Some root_data" "dict_truthy root_data" "root_id \<noteq> []"
          by auto
        show ?thesis
        proof (cases "add_node pg root_data 0")
          case (Inl e)
          with run s Inr Some rq d show ?thesis by (simp add: build_def)
        next
          case an: (Inr x)
          obtain b pg1 where x: "x = (b, pg1)" by (cases x)
          show ?thesis
          proof (cases "bfs srv args [(root_id, 0)] (pg1\<lparr>visited := insert root_id (visited pg1)\<rparr>, w2)")
            case (Inl e)
            with run s Inr Some rq d an x show ?thesis by (simp add: build_def)
          next
            case bf: (Inr y)
            obtain pg2 w3 where y: "y = (pg2, w3)" by (cases y)
            from run s Inr Some rq d an x bf y
            have "densify srv args (set (map fst (nodes (G pg2)))) (set_iter (map fst (nodes (G pg2))))
                    (pg2, w3) = (pg', w')"
              by (simp add: build_def Let_def)
            with an x bf y show ?thesis by blast
          qed
        qed
      qed
    qed
  qed
qed

lemma build_inv:
  assumes node: "\<And>pg p lay b pg'. P (G pg) \<Longrightarrow> lay = 0 \<or> (1 \<le> lay \<and> lay \<le> depth args) \<Longrightarrow>
                   add_node pg p lay = Inr (b, pg') \<Longrightarrow> P (G pg')"
    and edge: "\<And>pg s t f. P (G pg) \<Longrightarrow> P (G (add_edge pg s t f))"
    and run: "build srv set_iter args ttl (pg, w) = Inr (pg', w')"
    and start: "P (G pg)"
  shows "P (G pg')"
proof (cases "pg' = pg")
  case True
  with start show ?thesis by simp
next
  case False
  with build_Inr_cases[OF run] obtain root_id root_data b pg1 w2 pg2 w3 where
    an: "add_node pg root_data 0 = Inr (b, pg1)" and
    bf: "bfs srv args [(root_id, 0)] (pg1\<lparr>visited := insert root_id (visited pg1)\<rparr>, w2) = Inr (pg2, w3)" and
    de: "densify srv args (set (map fst (nodes (G pg2)))) (set_iter (map fst (nodes (G pg2)))) (pg2, w3)
           = (pg', w')"
    by blast
  from node[OF start _ an] have "P (G pg1)" by simp
  then have p1: "P (G (fst (pg1\<lparr>visited := insert root_id (visited pg1)\<rparr>, w2)))" by simp
  have nd: "\<And>pg p lay b pg'. P (G pg) \<Longrightarrow> 1 \<le> lay \<Longrightarrow> lay \<le> depth args \<Longrightarrow>
                   add_node pg p lay = Inr (b, pg') \<Longrightarrow> P (G pg')"
    using node by blast
  from bfs_inv[of P args, OF nd edge bf _ p1] have "P (G pg2)" by simp
  from densify_inv[of P, OF edge de this] show ?thesis .
qed


section \<open>A build on the concrete service\<close>

lemma fetch_B_refs:
  "fetch_relations srv0 ''B'' ''references'' ''citation'' False None None None 10000 w
     = (([mk_entry True ''A'' (Val 2001) 50], ''citedPaper''), sent w)"
proof -
  let ?page = "\<lambda>n. relations_ep srv0 n ''B'' ''references'' (relation_fields ''citedPaper'')"
  have req: "request_with_retry (\<lambda>n. ?page n 0) scholar_max_retries w
      = (Some (Val [mk_entry True ''A'' (Val 2001) 50]), sent w)"
    by (rule request_ok) (simp add: srv0_def)
  have pages: "fetch_pages ?page 10000 [] 0 w = ([mk_entry True ''A'' (Val 2001) 50], sent w)"
    using fetch_pages_last[of "[]" 10000 ?page 0 w, OF _ req] by simp
  show ?thesis
    unfolding fetch_relations_def
    by (simp add: pages Let_def slice_to_def passes_filter_def sort_papers_def)
qed

lemma fetch_A_refs:
  "fetch_relations srv0 ''A'' ''references'' ''citation'' False None None None 10000 w
     = (([], ''citedPaper''), sent w)"
proof -
  let ?page = "\<lambda>n. relations_ep srv0 n ''A'' ''references'' (relation_fields ''citedPaper'')"
  have req: "request_with_retry (\<lambda>n. ?page n 0) scholar_max_retries w = (Some (Val []), sent w)"
    by (rule request_ok) (simp add: srv0_def)
  have pages: "fetch_pages ?page 10000 [] 0 w = ([], sent w)"
    using fetch_pages_last[of "[]" 10000 ?page 0 w, OF _ req] by simp
  show ?thesis
    unfolding fetch_relations_def
    by (simp add: pages Let_def slice_to_def sort_papers_def)
qed

lemma search0: "search_paper srv0 ttl w = (Inr (Some ''X''), sent w)"
proof -
  have "request_with_retry (\<lambda>n. search_ep srv0 n ttl) scholar_max_retries w = (Some (Val [seed]), sent w)"
    by (rule request_ok) (simp add: srv0_def)
  then show ?thesis by (simp add: search_paper_def seed_def)
qed

lemma details0:
  "request_with_retry (\<lambda>n. paper_ep srv0 n ''X'') scholar_max_retries w = (Some seed, sent w)"
  by (rule request_ok) (simp add: srv0_def)

lemma build0:
  "\<exists>pg' w'. build srv0 (\<lambda>xs. xs) args0 ''T'' (init, w0) = Inr (pg', w')
      \<and> map fst (nodes (G pg')) = [''X'', ''B'', ''A'']
      \<and> map fst (edges (G pg')) = [(''X'', ''B''), (''X'', ''A''), (''B'', ''A'')]"
  by (simp add: build_def search0 details0 init_def seed_def dict_truthy_def empty_dict_def
        add_node_def has_node_def nx_add_node_def get_title_def bfs.simps args0_def
        directions_def widths_def index_def get_relations_def fetch_X_refs fetch_B_refs fetch_A_refs
        Let_def mk_entry_def entry_get_def get_influential_def slice_to_def info_truthy_def
        expand_direction_def expand_item_def present_id_def truthy_str_def add_edge_def
        has_edge_def nx_add_edge_def nx_touch_node_def ref_id_of_def)


lemma seed0: "add_node init seed 0 = Inr (True, pg_seed0\<lparr>visited := {}\<rparr>)"
  by (simp add: add_node_def init_def seed_def dict_truthy_def empty_dict_def has_node_def
        nx_add_node_def get_title_def pg_seed0_def)

lemma bfs0: "bfs srv0 args0 [(''X'', 0)] (pg_seed0, w) = Inr (pg_bfs0, sleep (1 / 2) (sent w))"
  by (simp add: pg_seed0_def pg_bfs0_def paper_A_def paper_B_def rec_X_def seed_def
        dict_truthy_def empty_dict_def
        add_node_def has_node_def nx_add_node_def get_title_def bfs.simps args0_def
        directions_def widths_def index_def get_relations_def fetch_X_refs
        Let_def mk_entry_def entry_get_def get_influential_def slice_to_def info_truthy_def
        expand_direction_def expand_item_def present_id_def truthy_str_def add_edge_def
        has_edge_def nx_add_edge_def nx_touch_node_def truthy_bool_def insert_commute)

lemma fetch2_X:
  "fetch_relations srv_noid ''X'' ''references'' ''citation'' False None None None 10000 w
     = (([mk_entry True ''B'' (Val 1999) 80], ''citedPaper''), sent w)"
proof -
  let ?page = "\<lambda>n. relations_ep srv_noid n ''X'' ''references'' (relation_fields ''citedPaper'')"
  have req: "request_with_retry (\<lambda>n. ?page n 0) scholar_max_retries w
      = (Some (Val [mk_entry True ''B'' (Val 1999) 80]), sent w)"
    by (rule request_ok) (simp add: srv_noid_def)
  have pages: "fetch_pages ?page 10000 [] 0 w = ([mk_entry True ''B'' (Val 1999) 80], sent w)"
    using fetch_pages_last[of "[]" 10000 ?page 0 w, OF _ req] by simp
  show ?thesis
    unfolding fetch_relations_def
    by (simp add: pages Let_def slice_to_def passes_filter_def sort_papers_def)
qed

lemma fetch2_B:
  "fetch_relations srv_noid ''B'' ''references'' ''citation'' False None None None 10000 w
     = (([mk_entry True ''X'' (Val 2017) 100], ''citedPaper''), sent w)"
proof -
  let ?page = "\<lambda>n. relations_ep srv_noid n ''B'' ''references'' (relation_fields ''citedPaper'')"
  have req: "request_with_retry (\<lambda>n. ?page n 0) scholar_max_retries w
      = (Some (Val [mk_entry True ''X'' (Val 2017) 100]), sent w)"
    by (rule request_ok) (simp add: srv_noid_def)
  have pages: "fetch_pages ?page 10000 [] 0 w = ([mk_entry True ''X'' (Val 2017) 100], sent w)"
    using fetch_pages_last[of "[]" 10000 ?page 0 w, OF _ req] by simp
  show ?thesis
    unfolding fetch_relations_def
    by (simp add: pages Let_def slice_to_def passes_filter_def sort_papers_def)
qed

lemma search2: "search_paper srv_noid ttl w = (Inr (Some ''X''), sent w)"
proof -
  have "request_with_retry (\<lambda>n. search_ep srv_noid n ttl) scholar_max_retries w = (Some (Val [seed]), sent w)"
    by (rule request_ok) (simp add: srv_noid_def)
  then show ?thesis by (simp add: search_paper_def seed_def)
qed

lemma details2:
  "request_with_retry (\<lambda>n. paper_ep srv_noid n ''X'') scholar_max_retries w = (Some seed_no_id, sent w)"
  by (rule request_ok) (simp add: srv_noid_def)

section \<open>Properties of build\<close>

lemma init_simple: "simple_digraph (G init)"
  by (simp add: simple_digraph_def init_def)

lemma init_layered: "layered D (G init)"
  by (simp add: layered_def init_def)

text \<open>
  C2. A build that starts from a simple directed graph (the empty graph of a new
  builder is one) and completes leaves a simple directed graph: no two nodes with the
  same id, no two edges with the same ordered pair, every edge between nodes of the
  graph. An edge is inserted only when both its ends are nodes and the pair is not yet
  an edge; a node is inserted only under an id that is not yet a node.
\<close>

theorem build_simple_digraph:
  assumes "build srv set_iter args ttl (pg, w) = Inr (pg', w')" and "simple_digraph (G pg)"
  shows "simple_digraph (G pg')
       \<and> (\<forall>g s t f. edges (G (add_edge g s t f)) \<noteq> edges (G g) \<longrightarrow>
             has_node (G g) s \<and> has_node (G g) t \<and> \<not> has_edge (G g) s t)
       \<and> (\<forall>g p lay b g'. add_node g p lay = Inr (b, g') \<and> nodes (G g') \<noteq> nodes (G g) \<longrightarrow>
             (\<exists>pid. get (paperId p) = Some pid \<and> \<not> has_node (G g) pid))"
proof -
  have "simple_digraph (G pg')"
  proof (rule build_inv[of simple_digraph, OF _ _ assms])
    show "\<And>pg p lay b pg'. simple_digraph (G pg) \<Longrightarrow> add_node pg p lay = Inr (b, pg')
            \<Longrightarrow> simple_digraph (G pg')"
      by (rule add_node_simple)
    show "\<And>pg s t f. simple_digraph (G pg) \<Longrightarrow> simple_digraph (G (add_edge pg s t f))"
      by (rule add_edge_simple)
  qed
  moreover have "\<forall>g s t f. edges (G (add_edge g s t f)) \<noteq> edges (G g) \<longrightarrow>
             has_node (G g) s \<and> has_node (G g) t \<and> \<not> has_edge (G g) s t"
    using add_edge_cases by metis
  moreover have "\<forall>g p lay b g'. add_node g p lay = Inr (b, g') \<and> nodes (G g') \<noteq> nodes (G g) \<longrightarrow>
             (\<exists>pid. get (paperId p) = Some pid \<and> \<not> has_node (G g) pid)"
    using add_node_cases by metis
  ultimately show ?thesis by blast
qed

theorem build_simple_digraph_witness:
  "\<exists>pg' w'. build srv0 (\<lambda>xs. xs) args0 ''T'' (init, w0) = Inr (pg', w')
      \<and> map fst (nodes (G pg')) = [''X'', ''B'', ''A'']
      \<and> map fst (edges (G pg')) = [(''X'', ''B''), (''X'', ''A''), (''B'', ''A'')]
      \<and> simple_digraph (G pg')"
proof -
  from build0 obtain pg' w' where
    b: "build srv0 (\<lambda>xs. xs) args0 ''T'' (init, w0) = Inr (pg', w')" and
    n: "map fst (nodes (G pg')) = [''X'', ''B'', ''A'']" and
    e: "map fst (edges (G pg')) = [(''X'', ''B''), (''X'', ''A''), (''B'', ''A'')]"
    by (elim exE conjE)
  from build_simple_digraph[OF b init_simple] have "simple_digraph (G pg')" by blast
  with b n e show ?thesis by (intro exI conjI)
qed

lemma add_node_layered0:
  "layered D (G pg) \<Longrightarrow> lay = 0 \<or> 1 \<le> lay \<and> lay \<le> D \<Longrightarrow> 0 \<le> D \<Longrightarrow>
   add_node pg p lay = Inr (b, pg') \<Longrightarrow> layered D (G pg')"
  using add_node_layered[of pg p lay b pg' D] by auto

lemma add_edge_layered: "layered D (G pg) \<Longrightarrow> layered D (G (add_edge pg s t f))"
  by (simp add: layered_def add_edge_nodes)

lemma expand_item_nodes:
  assumes "expand_item args cp cd m item (pg, q) = Inr (pg', q')"
  shows "\<exists>new. nodes (G pg') = nodes (G pg) @ new
           \<and> (\<forall>na \<in> set new. \<exists>a. snd na = Some a \<and> layer a = cd + 1)"
proof (cases item)
  case (Pair p_info is_influential)
  show ?thesis
  proof (cases "present_id p_info")
    case None
    with assms Pair show ?thesis
      by (auto simp: expand_item_def split: option.splits)
  next
    case (Some target_id)
    then obtain p where p: "p_info = Some p"
      by (cases p_info) (auto simp: present_id_def)
    from assms Pair Some p obtain b pg1 where
      an: "add_node pg p (cd + 1) = Inr (b, pg1)"
      by (auto simp: expand_item_def split: sum.splits)
    from assms Pair Some p an have "nodes (G pg') = nodes (G pg1)"
      by (auto simp: expand_item_def Let_def add_edge_nodes split: if_splits)
    with add_node_cases[OF an] show ?thesis
      by (auto simp: layer_node_style)
  qed
qed

lemma add_node_present:
  assumes "get (paperId p) = Some pid" and "has_node (G pg) pid"
  shows "\<exists>b. add_node pg p lay = Inr (b, pg)"
  using assms by (auto simp: add_node_def)

text \<open>
  The details of the seed come back without an id, so the seed is not inserted at the
  start; the expansion reaches it again through \<open>B\<close> and inserts it at layer 2.
\<close>

theorem seed_layer_counterexample:
  "search_paper srv_noid ''T'' w0 = (Inr (Some ''X''), sent w0)
   \<and> completed_layers (build srv_noid id args_deep ''T'' (init, w0))
       = Some [(''B'', Some 1), (''X'', Some 2)]"
  by (simp add: completed_layers_def layers_of_def build_def search2 details2 init_def
        seed_no_id_def dict_truthy_def empty_dict_def
        add_node_def has_node_def nx_add_node_def get_title_def bfs.simps args_deep_def
        directions_def widths_def index_def get_relations_def fetch2_X fetch2_B
        Let_def mk_entry_def entry_get_def get_influential_def slice_to_def info_truthy_def
        expand_direction_def expand_item_def present_id_def truthy_str_def add_edge_def
        has_edge_def nx_add_edge_def nx_touch_node_def ref_id_of_def layer_node_style)


lemma add_node_fresh:
  assumes "get (paperId p) = Some pid" and "pid \<noteq> []" and "\<not> has_node (G pg) pid"
    and "add_node pg p lay = Inr (b, pg')"
  shows "\<exists>t. nodes (G pg') = nodes (G pg) @ [(pid, Some (node_style p t lay))]"
proof -
  from assms(1) have "paperId p \<noteq> Absent" by auto
  then have "dict_truthy p" by (auto simp: dict_truthy_def empty_dict_def)
  with assms show ?thesis
    by (auto simp: add_node_def nx_add_node_def has_node_def update_fresh split: option.splits)
qed

definition grown :: "int \<Rightarrow> (string \<times> node_attrs option) list \<Rightarrow> digraph \<Rightarrow> bool" where
  "grown D ns g \<longleftrightarrow>
     (\<exists>new. nodes g = ns @ new
        \<and> (\<forall>na \<in> set new. \<exists>a. snd na = Some a \<and> 1 \<le> layer a \<and> layer a \<le> D))"

lemma grown_refl: "grown D (nodes g) g"
  by (simp add: grown_def)

lemma add_node_grown:
  assumes "grown D ns (G pg)" and "1 \<le> lay" and "lay \<le> D" and "add_node pg p lay = Inr (b, pg')"
  shows "grown D ns (G pg')"
proof -
  from assms(1) obtain new where
    n: "nodes (G pg) = ns @ new"
       "\<forall>na \<in> set new. \<exists>a. snd na = Some a \<and> 1 \<le> layer a \<and> layer a \<le> D"
    by (auto simp: grown_def)
  from add_node_cases[OF assms(4)] show ?thesis
  proof
    assume "pg' = pg"
    with assms(1) show ?thesis by simp
  next
    assume "\<exists>pid t. get (paperId p) = Some pid \<and> pid \<noteq> [] \<and> \<not> has_node (G pg) pid
              \<and> pg' = pg\<lparr>G := (G pg)\<lparr>nodes := nodes (G pg) @ [(pid, Some (node_style p t lay))]\<rparr>\<rparr>"
    then obtain pid t where
      "nodes (G pg') = ns @ (new @ [(pid, Some (node_style p t lay))])"
      using n(1) by auto
    moreover have "\<forall>na \<in> set (new @ [(pid, Some (node_style p t lay))]).
                     \<exists>a. snd na = Some a \<and> 1 \<le> layer a \<and> layer a \<le> D"
      using n(2) assms(2,3) by (auto simp: layer_node_style)
    ultimately show ?thesis unfolding grown_def by blast
  qed
qed

lemma add_edge_grown: "grown D ns (G pg) \<Longrightarrow> grown D ns (G (add_edge pg s t f))"
  by (simp add: grown_def add_edge_nodes)

lemma bfs_grown:
  assumes "bfs srv args q (pg, w) = Inr (pg', w')" and "\<forall>x \<in> set q. 0 \<le> snd x"
  shows "grown (depth args) (nodes (G pg)) (G pg')"
proof -
  have "grown (depth args) (nodes (G pg)) (G (fst (pg', w')))"
  proof (rule bfs_inv[of "grown (depth args) (nodes (G pg))" args, OF _ _ assms])
    show "\<And>g p lay b g'. grown (depth args) (nodes (G pg)) (G g) \<Longrightarrow> 1 \<le> lay \<Longrightarrow> lay \<le> depth args
            \<Longrightarrow> add_node g p lay = Inr (b, g') \<Longrightarrow> grown (depth args) (nodes (G pg)) (G g')"
      by (rule add_node_grown)
    show "\<And>g s t f. grown (depth args) (nodes (G pg)) (G g)
            \<Longrightarrow> grown (depth args) (nodes (G pg)) (G (add_edge g s t f))"
      by (rule add_edge_grown)
    show "grown (depth args) (nodes (G pg)) (G (fst (pg, w)))"
      by (simp add: grown_refl)
  qed
  then show ?thesis by simp
qed

lemma densify_nodes:
  "densify srv args ns pids (pg, w) = (pg', w') \<Longrightarrow> nodes (G pg') = nodes (G pg)"
  by (drule densify_only_new) (simp add: only_new_edges_def)

lemma build_seed_path:
  assumes s: "search_paper srv ttl w = (Inr (Some root_id), w1)" and ne: "root_id \<noteq> []"
    and rq: "request_with_retry (\<lambda>n. paper_ep srv n root_id) scholar_max_retries w1 = (Some root_data, w2)"
    and tr: "dict_truthy root_data"
    and run: "build srv set_iter args ttl (pg, w) = Inr (pg', w')"
  shows "\<exists>b pg1 pg2 w3.
            add_node pg root_data 0 = Inr (b, pg1)
          \<and> bfs srv args [(root_id, 0)] (pg1\<lparr>visited := insert root_id (visited pg1)\<rparr>, w2)
              = Inr (pg2, w3)
          \<and> densify srv args (set (map fst (nodes (G pg2)))) (set_iter (map fst (nodes (G pg2))))
                (pg2, w3) = (pg', w')"
proof (cases "add_node pg root_data 0")
  case (Inl e)
  with run s ne rq tr show ?thesis by (simp add: build_def)
next
  case an: (Inr x)
  obtain b pg1 where x: "x = (b, pg1)" by (cases x)
  show ?thesis
  proof (cases "bfs srv args [(root_id, 0)] (pg1\<lparr>visited := insert root_id (visited pg1)\<rparr>, w2)")
    case (Inl e)
    with run s ne rq tr an x show ?thesis by (simp add: build_def)
  next
    case bf: (Inr y)
    obtain pg2 w3 where y: "y = (pg2, w3)" by (cases y)
    from run s ne rq tr an x bf y
    have "densify srv args (set (map fst (nodes (G pg2)))) (set_iter (map fst (nodes (G pg2))))
            (pg2, w3) = (pg', w')"
      by (simp add: build_def Let_def)
    with an x bf y show ?thesis by blast
  qed
qed

lemma build_first_rest:
  assumes run: "build srv set_iter args ttl (pg, w) = Inr (pg', w')" and empty: "nodes (G pg) = []"
  shows "\<exists>first rest. nodes (G pg') = first @ rest \<and> length first \<le> 1
           \<and> (\<forall>na \<in> set first. \<exists>a. snd na = Some a \<and> layer a = 0)
           \<and> (\<forall>na \<in> set rest. \<exists>a. snd na = Some a \<and> 1 \<le> layer a \<and> layer a \<le> depth args)"
proof (cases "pg' = pg")
  case True
  with empty have "nodes (G pg') = [] @ []" by simp
  then show ?thesis by force
next
  case False
  with build_Inr_cases[OF run] obtain root_id root_data b pg1 w2 pg2 w3 where
    an: "add_node pg root_data 0 = Inr (b, pg1)" and
    bf: "bfs srv args [(root_id, 0)] (pg1\<lparr>visited := insert root_id (visited pg1)\<rparr>, w2) = Inr (pg2, w3)" and
    de: "densify srv args (set (map fst (nodes (G pg2)))) (set_iter (map fst (nodes (G pg2)))) (pg2, w3)
           = (pg', w')"
    by blast
  from add_node_cases[OF an] empty
  have first: "length (nodes (G pg1)) \<le> 1 \<and> (\<forall>na \<in> set (nodes (G pg1)). \<exists>a. snd na = Some a \<and> layer a = 0)"
    by (auto simp: layer_node_style)
  from bfs_grown[OF bf] obtain new where
    "nodes (G pg2) = nodes (G pg1) @ new"
    "\<forall>na \<in> set new. \<exists>a. snd na = Some a \<and> 1 \<le> layer a \<and> layer a \<le> depth args"
    by (auto simp: grown_def)
  with densify_nodes[OF de] first show ?thesis by metis
qed

lemma build_seed_layer:
  assumes run: "build srv set_iter args ttl (pg, w) = Inr (pg', w')" and empty: "nodes (G pg) = []"
    and s: "search_paper srv ttl w = (Inr (Some root_id), w1)" and ne: "root_id \<noteq> []"
    and rq: "request_with_retry (\<lambda>n. paper_ep srv n root_id) scholar_max_retries w1 = (Some root_data, w2)"
    and same: "get (paperId root_data) = Some root_id"
  shows "has_node (G pg') root_id
       \<and> (\<forall>a. (root_id, a) \<in> set (nodes (G pg')) \<longrightarrow> (\<exists>a'. a = Some a' \<and> layer a' = 0))"
proof -
  from same have "paperId root_data \<noteq> Absent" by auto
  then have tr: "dict_truthy root_data" by (auto simp: dict_truthy_def empty_dict_def)
  from build_seed_path[OF s ne rq tr run] obtain b pg1 pg2 w3 where
    an: "add_node pg root_data 0 = Inr (b, pg1)" and
    bf: "bfs srv args [(root_id, 0)] (pg1\<lparr>visited := insert root_id (visited pg1)\<rparr>, w2) = Inr (pg2, w3)" and
    de: "densify srv args (set (map fst (nodes (G pg2)))) (set_iter (map fst (nodes (G pg2)))) (pg2, w3)
           = (pg', w')"
    by blast
  have "\<not> has_node (G pg) root_id" using empty by (simp add: has_node_def)
  from add_node_fresh[OF same ne this an] empty obtain t where
    n1: "nodes (G pg1) = [(root_id, Some (node_style root_data t 0))]" by auto
  from bfs_grown[OF bf] obtain new where
    "nodes (G pg2) = nodes (G pg1) @ new" by (auto simp: grown_def)
  with densify_nodes[OF de] n1
  have n: "nodes (G pg') = (root_id, Some (node_style root_data t 0)) # new" by simp
  have "distinct (map fst (nodes (G pg')))"
  proof (rule build_inv[of "\<lambda>g. distinct (map fst (nodes g))", OF _ _ run])
    show "\<And>g p lay b g'. distinct (map fst (nodes (G g))) \<Longrightarrow> add_node g p lay = Inr (b, g')
            \<Longrightarrow> distinct (map fst (nodes (G g')))"
      by (drule add_node_cases) (auto simp: has_node_def)
    show "\<And>g s t f. distinct (map fst (nodes (G g))) \<Longrightarrow> distinct (map fst (nodes (G (add_edge g s t f))))"
      by (simp add: add_edge_nodes)
    show "distinct (map fst (nodes (G pg)))" using empty by simp
  qed
  with n have "root_id \<notin> fst ` set new" by simp
  with n show ?thesis
    by (auto simp: has_node_def layer_node_style) force
qed


lemma build0_layers:
  "completed_layers (build srv0 (\<lambda>xs. xs) args0 ''T'' (init, w0))
     = Some [(''X'', Some 0), (''B'', Some 1), (''A'', Some 1)]"
  by (simp add: completed_layers_def layers_of_def build_def search0 details0 init_def seed_def
        dict_truthy_def empty_dict_def
        add_node_def has_node_def nx_add_node_def get_title_def bfs.simps args0_def
        directions_def widths_def index_def get_relations_def fetch_X_refs fetch_B_refs fetch_A_refs
        Let_def mk_entry_def entry_get_def get_influential_def slice_to_def info_truthy_def
        expand_direction_def expand_item_def present_id_def truthy_str_def add_edge_def
        has_edge_def nx_add_edge_def nx_touch_node_def ref_id_of_def layer_node_style)

text \<open>
  C3, amended. For a maximum depth \<open>D \<ge> 0\<close>, after a completed build every node carries
  a layer between 0 and \<open>D\<close>. On a new builder, layer 0 is held by at most one node, the
  first, and every other node has a layer between 1 and \<open>D\<close>. When the details of the
  seed carry the id that the search returned, the seed is a node and its layer is 0,
  whatever refers to it later. A round of the expansion of a node dequeued at depth \<open>cd\<close>
  keeps the nodes that exist, with their layers, and inserts new nodes at layer \<open>cd + 1\<close>
  only. Adding a publication whose id is already a node leaves the builder as it is,
  whatever layer is passed.
\<close>

theorem build_layers:
  assumes "0 \<le> depth args" and "layered (depth args) (G pg)"
    and "build srv set_iter args ttl (pg, w) = Inr (pg', w')"
  shows "layered (depth args) (G pg')
       \<and> (nodes (G pg) = [] \<longrightarrow>
            (\<exists>first rest. nodes (G pg') = first @ rest \<and> length first \<le> 1
               \<and> (\<forall>na \<in> set first. \<exists>a. snd na = Some a \<and> layer a = 0)
               \<and> (\<forall>na \<in> set rest. \<exists>a. snd na = Some a \<and> 1 \<le> layer a \<and> layer a \<le> depth args)))
       \<and> (\<forall>root_id w1 root_data w2.
             nodes (G pg) = []
           \<and> search_paper srv ttl w = (Inr (Some root_id), w1) \<and> root_id \<noteq> []
           \<and> request_with_retry (\<lambda>n. paper_ep srv n root_id) scholar_max_retries w1
               = (Some root_data, w2)
           \<and> get (paperId root_data) = Some root_id \<longrightarrow>
             has_node (G pg') root_id
           \<and> (\<forall>a. (root_id, a) \<in> set (nodes (G pg')) \<longrightarrow> (\<exists>a'. a = Some a' \<and> layer a' = 0)))
       \<and> (\<forall>p b g. add_node init p 0 = Inr (b, g) \<longrightarrow> layered 0 (G g))
       \<and> (\<forall>cp cd m item g q g' q'. expand_item args cp cd m item (g, q) = Inr (g', q') \<longrightarrow>
             (\<exists>new. nodes (G g') = nodes (G g) @ new
                \<and> (\<forall>na \<in> set new. \<exists>a. snd na = Some a \<and> layer a = cd + 1)))
       \<and> (\<forall>g p lay pid. get (paperId p) = Some pid \<and> has_node (G g) pid \<longrightarrow>
             (\<exists>b. add_node g p lay = Inr (b, g)))"
proof -
  have 1: "layered (depth args) (G pg')"
  proof (rule build_inv[of "layered (depth args)", OF _ _ assms(3,2)])
    show "\<And>pg p lay b pg'. layered (depth args) (G pg) \<Longrightarrow> lay = 0 \<or> 1 \<le> lay \<and> lay \<le> depth args
            \<Longrightarrow> add_node pg p lay = Inr (b, pg') \<Longrightarrow> layered (depth args) (G pg')"
      using assms(1) add_node_layered0 by blast
    show "\<And>pg s t f. layered (depth args) (G pg) \<Longrightarrow> layered (depth args) (G (add_edge pg s t f))"
      by (rule add_edge_layered)
  qed
  have 2: "nodes (G pg) = [] \<longrightarrow>
            (\<exists>first rest. nodes (G pg') = first @ rest \<and> length first \<le> 1
               \<and> (\<forall>na \<in> set first. \<exists>a. snd na = Some a \<and> layer a = 0)
               \<and> (\<forall>na \<in> set rest. \<exists>a. snd na = Some a \<and> 1 \<le> layer a \<and> layer a \<le> depth args))"
    using build_first_rest[OF assms(3)] by blast
  have 3: "\<forall>root_id w1 root_data w2.
             nodes (G pg) = []
           \<and> search_paper srv ttl w = (Inr (Some root_id), w1) \<and> root_id \<noteq> []
           \<and> request_with_retry (\<lambda>n. paper_ep srv n root_id) scholar_max_retries w1
               = (Some root_data, w2)
           \<and> get (paperId root_data) = Some root_id \<longrightarrow>
             has_node (G pg') root_id
           \<and> (\<forall>a. (root_id, a) \<in> set (nodes (G pg')) \<longrightarrow> (\<exists>a'. a = Some a' \<and> layer a' = 0))"
    using build_seed_layer[OF assms(3)] by blast
  have 4: "\<forall>p b g. add_node init p 0 = Inr (b, g) \<longrightarrow> layered 0 (G g)"
    using add_node_layered[OF _ _ _ init_layered, of _ 0 _ _ 0] by simp
  have 5: "\<forall>cp cd m item g q g' q'. expand_item args cp cd m item (g, q) = Inr (g', q') \<longrightarrow>
             (\<exists>new. nodes (G g') = nodes (G g) @ new
                \<and> (\<forall>na \<in> set new. \<exists>a. snd na = Some a \<and> layer a = cd + 1))"
    using expand_item_nodes by blast
  have 6: "\<forall>g p lay pid. get (paperId p) = Some pid \<and> has_node (G g) pid \<longrightarrow>
             (\<exists>b. add_node g p lay = Inr (b, g))"
    using add_node_present by blast
  from 1 2 3 4 5 6 show ?thesis by (intro conjI)
qed

theorem build_layers_witness:
  "completed_layers (build srv0 (\<lambda>xs. xs) args0 ''T'' (init, w0))
     = Some [(''X'', Some 0), (''B'', Some 1), (''A'', Some 1)]
   \<and> search_paper srv0 ''T'' w0 = (Inr (Some ''X''), sent w0)
   \<and> request_with_retry (\<lambda>n. paper_ep srv0 n ''X'') scholar_max_retries (sent w0)
       = (Some seed, sent (sent w0))
   \<and> get (paperId seed) = Some ''X''
   \<and> (\<exists>pg' w'. build srv0 (\<lambda>xs. xs) args0 ''T'' (init, w0) = Inr (pg', w')
         \<and> depth args0 = 1 \<and> layered 1 (G pg') \<and> has_node (G pg') ''X''
         \<and> (\<forall>a. (''X'', a) \<in> set (nodes (G pg')) \<longrightarrow> (\<exists>a'. a = Some a' \<and> layer a' = 0)))"
proof -
  from build0 obtain pg' w' where
    b: "build srv0 (\<lambda>xs. xs) args0 ''T'' (init, w0) = Inr (pg', w')"
    by (elim exE conjE)
  have d: "depth args0 = 1" by (simp add: args0_def)
  then have d0: "0 \<le> depth args0" by simp
  have e: "nodes (G init) = []" by (simp add: init_def)
  have i: "get (paperId seed) = Some ''X''" by (simp add: seed_def)
  have n: "''X'' \<noteq> []" by simp
  note t = build_layers[OF d0 init_layered b]
  from t d have l: "layered 1 (G pg')" by simp
  note t3 = t[THEN conjunct2, THEN conjunct2, THEN conjunct1, rule_format,
               of "''X''" "sent w0" seed "sent (sent w0)"]
  have x: "has_node (G pg') ''X''
      \<and> (\<forall>a. (''X'', a) \<in> set (nodes (G pg')) \<longrightarrow> (\<exists>a'. a = Some a' \<and> layer a' = 0))"
    by (rule t3) (intro conjI e search0 n details0 i)
  from b d l x[THEN conjunct1] x[THEN conjunct2] have "\<exists>pg' w'. build srv0 (\<lambda>xs. xs) args0 ''T'' (init, w0) = Inr (pg', w')
         \<and> depth args0 = 1 \<and> layered 1 (G pg') \<and> has_node (G pg') ''X''
         \<and> (\<forall>a. (''X'', a) \<in> set (nodes (G pg')) \<longrightarrow> (\<exists>a'. a = Some a' \<and> layer a' = 0))"
    by (intro exI conjI)
  with build0_layers search0[of "''T''" w0] details0[of "sent w0"] i show ?thesis
    by (intro conjI)
qed


text \<open>
  C4. The densification pass, from any state, leaves the list of nodes as it is and
  appends edges only: the edges that exist stay as they are, in place; every appended
  edge joins two nodes that existed when the pass started and was not an edge then; and
  the pass creates no second edge for an ordered pair.
\<close>

theorem densify_frame:
  assumes "densify srv args ns pids (pg, w) = (pg', w')"
  shows "only_new_edges (G pg) (G pg')
       \<and> (distinct (map fst (edges (G pg))) \<longrightarrow> distinct (map fst (edges (G pg'))))"
proof -
  have "distinct (map fst (edges (G pg))) \<Longrightarrow> distinct (map fst (edges (G pg')))"
  proof (rule densify_inv[of "\<lambda>g. distinct (map fst (edges g))", OF _ assms])
    fix g :: paper_graph and s t f
    assume "distinct (map fst (edges (G g)))"
    with add_edge_cases[of g s t f]
    show "distinct (map fst (edges (G (add_edge g s t f))))"
      by (auto simp: has_edge_def)
  qed
  with densify_only_new[OF assms] show ?thesis by blast
qed

theorem densify_frame_witness:
  "bfs srv0 args0 [(''X'', 0)] (pg_seed0, w0) = Inr (pg_bfs0, sleep (1 / 2) (sent w0))
   \<and> map fst (edges (G pg_bfs0)) = [(''X'', ''B''), (''X'', ''A'')]
   \<and> map fst (edges (G (fst (densify srv0 args0 {''X'', ''B'', ''A''} [''X'', ''B'', ''A'']
                                (pg_bfs0, sleep (1 / 2) (sent w0))))))
        = [(''X'', ''B''), (''X'', ''A''), (''B'', ''A'')]
   \<and> only_new_edges (G pg_bfs0)
        (G (fst (densify srv0 args0 {''X'', ''B'', ''A''} [''X'', ''B'', ''A'']
                   (pg_bfs0, sleep (1 / 2) (sent w0)))))"
proof -
  have run: "map fst (edges (G (fst (densify srv0 args0 {''X'', ''B'', ''A''} [''X'', ''B'', ''A'']
                                (pg_bfs0, sleep (1 / 2) (sent w0))))))
        = [(''X'', ''B''), (''X'', ''A''), (''B'', ''A'')]"
    by (simp add: pg_bfs0_def rec_X_def args0_def get_relations_def fetch_B_refs fetch_A_refs
          Let_def mk_entry_def entry_get_def get_influential_def ref_id_of_def dict_truthy_def
          empty_dict_def add_edge_def has_node_def has_edge_def nx_add_edge_def nx_touch_node_def)
  have "densify srv0 args0 {''X'', ''B'', ''A''} [''X'', ''B'', ''A''] (pg_bfs0, sleep (1 / 2) (sent w0))
          = (fst (densify srv0 args0 {''X'', ''B'', ''A''} [''X'', ''B'', ''A'']
                    (pg_bfs0, sleep (1 / 2) (sent w0))),
             snd (densify srv0 args0 {''X'', ''B'', ''A''} [''X'', ''B'', ''A'']
                    (pg_bfs0, sleep (1 / 2) (sent w0))))"
    by simp
  from densify_frame[OF this] run bfs0[of w0] show ?thesis
    by (simp add: pg_bfs0_def)
qed

text \<open>
  C10. When the search resolves the seed and the request for the details of the seed
  returns the failure value, \<open>build\<close> returns normally with the builder untouched: no
  node, no edge, nothing visited. \<open>save\<close> then reports the empty graph and writes no file.
\<close>

theorem build_seed_details_failed:
  assumes "search_paper srv ttl w = (Inr (Some root_id), w1)" and "root_id \<noteq> []"
    and "request_with_retry (\<lambda>n. paper_ep srv n root_id) scholar_max_retries w1 = (None, w2)"
  shows "build srv set_iter args ttl (init, w) = Inr (init, w2)
       \<and> nodes (G init) = [] \<and> edges (G init) = [] \<and> visited init = {}
       \<and> save init filename = Graph_empty
       \<and> main srv set_iter args ttl True filename w = Inr (Some Graph_empty, w2)"
proof -
  have b: "build srv set_iter args ttl (init, w) = Inr (init, w2)"
    using assms by (simp add: build_def)
  have s: "save init filename = Graph_empty"
    by (simp add: save_def number_of_nodes_def init_def)
  from b s show ?thesis by (simp add: main_def) (simp add: init_def)
qed

theorem build_seed_details_failed_witness:
  "search_paper srv1 ''T'' w0 = (Inr (Some ''X''), sent w0)
   \<and> request_with_retry (\<lambda>n. paper_ep srv1 n ''X'') scholar_max_retries (sent w0) = (None, sent (sent w0))
   \<and> build srv1 (\<lambda>xs. xs) args0 ''T'' (init, w0) = Inr (init, sent (sent w0))
   \<and> main srv1 (\<lambda>xs. xs) args0 ''T'' True ''graph.html'' w0 = Inr (Some Graph_empty, sent (sent w0))"
proof -
  have "request_with_retry (\<lambda>n. search_ep srv1 n ''T'') scholar_max_retries w0 = (Some (Val [seed]), sent w0)"
    by (rule request_ok) (simp add: srv1_def srv0_def)
  then have s: "search_paper srv1 ''T'' w0 = (Inr (Some ''X''), sent w0)"
    by (simp add: search_paper_def seed_def)
  have r: "request_with_retry (\<lambda>n. paper_ep srv1 n ''X'') scholar_max_retries (sent w0) = (None, sent (sent w0))"
    by (rule request_other[of _ _ 500 empty_dict]) (simp_all add: srv1_def)
  have n: "''X'' \<noteq> []" by simp
  from build_seed_details_failed[OF s n r, of "\<lambda>xs. xs" args0 "''graph.html''"] s r
  show ?thesis by simp
qed

end
